theory Spec2Isabelle
  imports Main "HOL-Library.Word"
begin

section \<open>The cell complex of DelaunayGraphCut\<close>

text \<open>
  This theory embeds the inline operations of
  \<^verbatim>\<open>src/aliceVision/fuseCut/DelaunayGraphCut.hpp\<close>: facets and their vertices,
  \<^verbatim>\<open>mirrorFacet\<close>, the vertex-to-cells cache and its two accessors.
\<close>

subsection \<open>Indices\<close>

text \<open>
  \<^verbatim>\<open>VertexIndex\<close> and \<^verbatim>\<open>CellIndex\<close> are both \<^verbatim>\<open>GEO::index_t\<close>, an unsigned 32-bit
  integer. \<^verbatim>\<open>GEO::NO_CELL\<close> and \<^verbatim>\<open>GEO::NO_VERTEX\<close> are \<^verbatim>\<open>index_t(-1)\<close>.
\<close>

type_synonym index_t = "32 word"

text \<open>
  A C++ \<^verbatim>\<open>int\<close> is a 32-bit two's complement value, read by \<^term>\<open>sint\<close>. Its conversion to
  \<^verbatim>\<open>index_t\<close> keeps the 32 bits.
\<close>

type_synonym c_int = "32 word"

definition NO_CELL :: index_t where
  "NO_CELL = - 1"

definition NO_VERTEX :: index_t where
  "NO_VERTEX = - 1"

subsection \<open>The triangulation backend\<close>

text \<open>
  \<^verbatim>\<open>_tetrahedralization\<close> is a \<^verbatim>\<open>GEO::Delaunay\<close> of the geogram library. The header only
  queries it, so it is a parameter here: the number of cells and the three queries the
  inline functions make. \<^verbatim>\<open>cell_vertex\<close> and \<^verbatim>\<open>cell_adjacent\<close> return a
  \<^verbatim>\<open>signed_index_t\<close> that the callers store in an \<^verbatim>\<open>index_t\<close>; the fields hold the value
  after that conversion, so the backend's \<^verbatim>\<open>-1\<close> reads as \<^verbatim>\<open>NO_VERTEX\<close> or \<^verbatim>\<open>NO_CELL\<close>.
\<close>

record delaunay =
  nb_cells :: index_t
  cell_vertex :: "index_t \<Rightarrow> index_t \<Rightarrow> index_t"
  cell_adjacent :: "index_t \<Rightarrow> index_t \<Rightarrow> index_t"
  cell_is_infinite :: "index_t \<Rightarrow> bool"

text \<open>The cell indices \<^verbatim>\<open>0 .. nb_cells - 1\<close>, in the order of a \<^verbatim>\<open>for\<close> loop over them.\<close>

definition cells :: "delaunay \<Rightarrow> index_t list" where
  "cells T = map word_of_nat [0 ..< unat (nb_cells T)]"

text \<open>The four local slots of a cell, in the order of \<^verbatim>\<open>for(k = 0; k < 4; ++k)\<close>.\<close>

definition slots :: "index_t list" where
  "slots = [0, 1, 2, 3]"

subsection \<open>Facets\<close>

text \<open>
  \<^verbatim>\<open>struct Facet { CellIndex cellIndex = GEO::NO_CELL;
  VertexIndex localVertexIndex = GEO::NO_VERTEX; }\<close>
\<close>

record Facet =
  cellIndex :: index_t
  localVertexIndex :: index_t

definition Facet_default :: Facet where
  "Facet_default = \<lparr>cellIndex = NO_CELL, localVertexIndex = NO_VERTEX\<rparr>"

definition getOppositeVertexIndex :: "delaunay \<Rightarrow> Facet \<Rightarrow> index_t" where
  "getOppositeVertexIndex T f = cell_vertex T (cellIndex f) (localVertexIndex f)"

text \<open>
  The local slot \<^verbatim>\<open>(f.localVertexIndex + i + 1) % 4\<close>. The \<^verbatim>\<open>int\<close> argument is converted
  to the unsigned type of \<^verbatim>\<open>localVertexIndex\<close> and the sum wraps at 32 bits.
\<close>

definition facetSlot :: "index_t \<Rightarrow> c_int \<Rightarrow> index_t" where
  "facetSlot lvi i = (lvi + i + 1) mod 4"

definition getVertexIndex :: "delaunay \<Rightarrow> Facet \<Rightarrow> c_int \<Rightarrow> index_t" where
  "getVertexIndex T f i = cell_vertex T (cellIndex f) (facetSlot (localVertexIndex f) i)"

text \<open>The array \<^verbatim>\<open>facetVertices\<close> that \<^verbatim>\<open>mirrorFacet\<close> builds.\<close>

definition facetVertices :: "delaunay \<Rightarrow> Facet \<Rightarrow> index_t list" where
  "facetVertices T f = [getVertexIndex T f 0, getVertexIndex T f 1, getVertexIndex T f 2]"

definition isInfiniteCell :: "delaunay \<Rightarrow> index_t \<Rightarrow> bool" where
  "isInfiniteCell T ci = cell_is_infinite T ci"

definition isInvalidOrInfiniteCell :: "delaunay \<Rightarrow> index_t \<Rightarrow> bool" where
  "isInvalidOrInfiniteCell T ci \<longleftrightarrow> ci = NO_CELL \<or> isInfiniteCell T ci"

text \<open>
  \<^verbatim>\<open>mirrorFacet\<close>: the loop over \<^verbatim>\<open>k = 0 .. 3\<close> returns at the first slot of the adjacent
  cell whose vertex \<^verbatim>\<open>std::find\<close> does not find in \<^verbatim>\<open>facetVertices\<close>; when the loop
  ends without returning, \<^verbatim>\<open>localVertexIndex\<close> keeps its default.
\<close>

definition mirrorFacet :: "delaunay \<Rightarrow> Facet \<Rightarrow> Facet" where
  "mirrorFacet T f =
     (let fv = facetVertices T f;
          out = Facet_default\<lparr>cellIndex := cell_adjacent T (cellIndex f) (localVertexIndex f)\<rparr>
      in if cellIndex out \<noteq> NO_CELL
         then (case find (\<lambda>k. cell_vertex T (cellIndex out) k \<notin> set fv) slots of
                 Some k \<Rightarrow> out\<lparr>localVertexIndex := k\<rparr>
               | None \<Rightarrow> out)
         else out)"


subsection \<open>The state of DelaunayGraphCut\<close>

text \<open>
  The data members the inline functions read or write. \<^verbatim>\<open>Point3d\<close>, \<^verbatim>\<open>GC_vertexInfo\<close> and
  \<^verbatim>\<open>GC_cellInfo\<close> are declared in other headers and only stored here, so they are type
  parameters.
\<close>

record ('p, 'v, 'c) DelaunayGraphCut =
  tetrahedralization :: delaunay
  verticesCoords :: "'p list"
  verticesAttr :: "'v list"
  cellsAttr :: "'c list"
  cellIsFull :: "bool list"
  neighboringCellsPerVertex :: "index_t list list"

subsection \<open>The vertex-to-cells cache\<close>

text \<open>
  A \<^verbatim>\<open>std::set<CellIndex>\<close> is kept as the list of its elements in increasing order;
  \<^verbatim>\<open>insert\<close> leaves the set alone when the element is there.
\<close>

definition set_insert :: "index_t \<Rightarrow> index_t list \<Rightarrow> index_t list" where
  "set_insert x s = (if x \<in> set s then s else insort x s)"

text \<open>
  A \<^verbatim>\<open>std::map<VertexIndex, std::set<CellIndex>>\<close> is kept as the list of its entries in
  increasing key order, the order in which a range-for visits them. \<open>map_modify k f m\<close> is
  \<^verbatim>\<open>f(m[k])\<close>: \<^verbatim>\<open>operator[]\<close> inserts an empty set under a key that is not there yet.
\<close>

type_synonym cells_per_vertex = "(index_t \<times> index_t list) list"

fun map_modify ::
  "index_t \<Rightarrow> (index_t list \<Rightarrow> index_t list) \<Rightarrow> cells_per_vertex \<Rightarrow> cells_per_vertex" where
  "map_modify k f [] = [(k, f [])]"
| "map_modify k f ((a, s) # m) =
     (if k < a then (k, f []) # (a, s) # m
      else if k = a then (a, f s) # m
      else (a, s) # map_modify k f m)"

text \<open>
  The body of the inner loop of \<^verbatim>\<open>updateVertexToCellsCache\<close> for cell \<open>ci\<close> and slot \<open>k\<close>;
  \<open>n\<close> is \<^verbatim>\<open>_verticesCoords.size()\<close>, against which the 32-bit \<open>vi\<close> is compared as a
  \<^verbatim>\<open>size_t\<close>. The counter \<^verbatim>\<open>coutInvalidVertices\<close> is only logged and is left out.
\<close>

definition cache_step ::
  "delaunay \<Rightarrow> nat \<Rightarrow> cells_per_vertex \<Rightarrow> index_t \<Rightarrow> index_t \<Rightarrow> cells_per_vertex" where
  "cache_step T n m ci k =
     (let vi = cell_vertex T ci k
      in if vi = NO_VERTEX \<or> n \<le> unat vi then m else map_modify vi (set_insert ci) m)"

definition neighboringCellsPerVertexTmp :: "delaunay \<Rightarrow> nat \<Rightarrow> cells_per_vertex" where
  "neighboringCellsPerVertexTmp T n =
     foldl (\<lambda>m ci. foldl (\<lambda>m k. cache_step T n m ci k) m slots) [] (cells T)"

text \<open>
  \<^verbatim>\<open>clear()\<close> followed by \<^verbatim>\<open>resize(n)\<close> leaves \<open>n\<close> empty vectors; the last loop assigns the
  elements of each set, in order, to the vector at index \<^verbatim>\<open>it.first\<close>.
\<close>

definition assign_all :: "index_t list list \<Rightarrow> cells_per_vertex \<Rightarrow> index_t list list" where
  "assign_all out m = foldl (\<lambda>out (vi, s). out[unat vi := s]) out m"

definition updateVertexToCellsCache ::
  "('p, 'v, 'c) DelaunayGraphCut \<Rightarrow> ('p, 'v, 'c) DelaunayGraphCut" where
  "updateVertexToCellsCache S =
     (let n = length (verticesCoords S);
          tmp = neighboringCellsPerVertexTmp (tetrahedralization S) n
      in S\<lparr>neighboringCellsPerVertex := assign_all (replicate n []) tmp\<rparr>)"

text \<open>
  \<^verbatim>\<open>std::vector::at\<close> throws \<^verbatim>\<open>std::out_of_range\<close> when the index is not below the size.
\<close>

datatype exception = out_of_range

definition vector_at :: "'a list \<Rightarrow> index_t \<Rightarrow> exception + 'a" where
  "vector_at xs i = (if unat i < length xs then Inr (xs ! unat i) else Inl out_of_range)"

definition getNeighboringCellsByVertexIndex ::
  "('p, 'v, 'c) DelaunayGraphCut \<Rightarrow> index_t \<Rightarrow> exception + index_t list" where
  "getNeighboringCellsByVertexIndex S vi = vector_at (neighboringCellsPerVertex S) vi"

text \<open>
  In \<^verbatim>\<open>lvi >= localCells.size()\<close> and in \<^verbatim>\<open>localCells[lvi]\<close> the \<^verbatim>\<open>int\<close> is converted to
  the 64-bit unsigned \<^verbatim>\<open>size_t\<close>: its value modulo \<open>2^64\<close>.
\<close>

definition size_t_of_int :: "c_int \<Rightarrow> nat" where
  "size_t_of_int i = nat (sint i mod 2 ^ 64)"

definition vertexToCells ::
  "('p, 'v, 'c) DelaunayGraphCut \<Rightarrow> index_t \<Rightarrow> c_int \<Rightarrow> exception + index_t" where
  "vertexToCells S vi lvi =
     (case vector_at (neighboringCellsPerVertex S) vi of
        Inl e \<Rightarrow> Inl e
      | Inr localCells \<Rightarrow>
          if length localCells \<le> size_t_of_int lvi then Inr NO_CELL
          else Inr (localCells ! size_t_of_int lvi))"

text \<open>
  The members of a \<^verbatim>\<open>DelaunayGraphCut\<close> on which \<^verbatim>\<open>updateVertexToCellsCache\<close> has never
  run: \<^verbatim>\<open>_neighboringCellsPerVertex\<close> is a default-constructed, empty vector.
\<close>

definition never_built :: "('p, 'v, 'c) DelaunayGraphCut \<Rightarrow> bool" where
  "never_built S \<longleftrightarrow> neighboringCellsPerVertex S = []"

subsection \<open>Assumptions on the backend\<close>

text \<open>
  The header relies on the backend returning a triangulation. Two of its properties are
  used below.

  \<^emph>\<open>Symmetric adjacency\<close>: when \<^verbatim>\<open>cell_adjacent(c, lf)\<close> is a cell \<open>c'\<close>, then \<open>c'\<close> has a
  facet \<open>lf'\<close> on the same three vertices as facet \<open>lf\<close> of \<open>c\<close>, and
  \<^verbatim>\<open>cell_adjacent(c', lf')\<close> is \<open>c\<close> again.
\<close>

definition adjacent_symmetric :: "delaunay \<Rightarrow> bool" where
  "adjacent_symmetric T \<longleftrightarrow>
     list_all (\<lambda>c. list_all (\<lambda>lf.
        cell_adjacent T c lf \<noteq> NO_CELL \<longrightarrow>
        list_ex (\<lambda>lf'.
           cell_adjacent T (cell_adjacent T c lf) lf' = c \<and>
           set (facetVertices T \<lparr>cellIndex = cell_adjacent T c lf, localVertexIndex = lf'\<rparr>) =
           set (facetVertices T \<lparr>cellIndex = c, localVertexIndex = lf\<rparr>)) slots) slots) (cells T)"

text \<open>
  \<^emph>\<open>Distinct vertex references\<close>: the four \<^verbatim>\<open>cell_vertex\<close> values of a cell are pairwise
  different (in an infinite cell the reference to the vertex at infinity is one of the four).
\<close>

definition distinct_cell_vertices :: "delaunay \<Rightarrow> bool" where
  "distinct_cell_vertices T \<longleftrightarrow> list_all (\<lambda>c. distinct (map (cell_vertex T c) slots)) (cells T)"

text \<open>
  Two weaker conditions, for comparison. Adjacency that is symmetric only between cells
  (a neighbour of a cell has that cell as a neighbour across some facet) is
  \<open>cell_adjacency_symmetric\<close> below. Distinct vertex references in the non-infinite cells
  only:
\<close>

definition non_infinite_cells_distinct :: "delaunay \<Rightarrow> bool" where
  "non_infinite_cells_distinct T \<longleftrightarrow>
     list_all (\<lambda>c. \<not> isInfiniteCell T c \<longrightarrow> distinct (map (cell_vertex T c) slots)) (cells T)"

subsection \<open>A concrete backend\<close>

text \<open>
  geogram keeps a triangulation in two flat arrays of \<^verbatim>\<open>signed_index_t\<close>, four entries per
  cell: \<^verbatim>\<open>cell_to_v_[4 * c + lv]\<close> and \<^verbatim>\<open>cell_to_cell_[4 * c + lf]\<close>, with \<^verbatim>\<open>-1\<close> for the
  vertex at infinity and for a missing neighbour. A cell is infinite when one of its
  vertices is \<^verbatim>\<open>-1\<close>.
\<close>

definition delaunay_of_arrays :: "int list \<Rightarrow> int list \<Rightarrow> delaunay" where
  "delaunay_of_arrays cell_to_v cell_to_cell =
     \<lparr>nb_cells = word_of_nat (length cell_to_v div 4),
      cell_vertex = (\<lambda>c lv. word_of_int (cell_to_v ! (4 * unat c + unat lv))),
      cell_adjacent = (\<lambda>c lf. word_of_int (cell_to_cell ! (4 * unat c + unat lf))),
      cell_is_infinite = (\<lambda>c. list_ex (\<lambda>lv. cell_to_v ! (4 * unat c + lv) = - 1) [0 ..< 4])\<rparr>"

text \<open>
  Two tetrahedra \<open>0 = (0, 1, 2, 3)\<close> and \<open>1 = (1, 2, 3, 4)\<close> glued along the triangle
  \<open>(1, 2, 3)\<close>, which is facet \<open>0\<close> of cell \<open>0\<close> and facet \<open>3\<close> of cell \<open>1\<close>.
\<close>

definition two_tets :: delaunay where
  "two_tets = delaunay_of_arrays [0, 1, 2, 3,  1, 2, 3, 4] [1, - 1, - 1, - 1,  - 1, - 1, - 1, 0]"

text \<open>
  The same two tetrahedra, each recorded as the other's neighbour, but cell 1 records it
  across its facet 0, the triangle \<open>(2, 3, 4)\<close>, and not across the shared triangle.
\<close>

definition misglued_tets :: delaunay where
  "misglued_tets =
     delaunay_of_arrays [0, 1, 2, 3,  1, 2, 3, 4] [1, - 1, - 1, - 1,  0, - 1, - 1, - 1]"

text \<open>
  Two infinite cells glued along the facet \<open>(0, 1, -1)\<close>, where cell 0 refers to the vertex
  at infinity twice, and a separate tetrahedron \<open>(6, 7, 8, 9)\<close>.
\<close>

definition infinite_pair :: delaunay where
  "infinite_pair =
     delaunay_of_arrays [0, 1, - 1, - 1,  0, 1, - 1, 5,  6, 7, 8, 9]
                        [- 1, - 1, - 1, 1,  - 1, - 1, - 1, 0,  - 1, - 1, - 1, - 1]"

section \<open>Operations declared in the header and defined elsewhere\<close>

text \<open>
  \<^verbatim>\<open>removeDust\<close>, \<^verbatim>\<open>segmentFullOrFree\<close> and \<^verbatim>\<open>createMesh\<close> are declared in
  \<^verbatim>\<open>DelaunayGraphCut.hpp\<close>; their bodies are in \<^verbatim>\<open>DelaunayGraphCut.cpp\<close>, which is not
  among the sources embedded here. The definitions of this section follow the
  specification's description of them and use the inline functions embedded above.
\<close>

text \<open>The label of a cell: \<^verbatim>\<open>_cellIsFull[ci]\<close>, true for full.\<close>

definition label :: "('p, 'v, 'c) DelaunayGraphCut \<Rightarrow> index_t \<Rightarrow> bool" where
  "label S ci = (cellIsFull S ! unat ci)"

text \<open>Every cell has a label.\<close>

definition labelled :: "('p, 'v, 'c) DelaunayGraphCut \<Rightarrow> bool" where
  "labelled S \<longleftrightarrow> length (cellIsFull S) = unat (nb_cells (tetrahedralization S))"

subsection \<open>Topology repair\<close>

text \<open>
  Modelled from the spec: the body of \<^verbatim>\<open>segmentFullOrFree\<close> is missing. The specification
  (4.5) describes it as a flood fill of the connected components of same-labelled cells
  via facet adjacency, crossing only facets whose mirror cell shares the label.
  \<open>same_label_crossings S full\<close> lists those crossings \<open>(c, d)\<close>: \<open>d\<close> is the cell of the
  mirror of a facet of \<open>c\<close>, and both cells carry the label \<open>full\<close>.
\<close>

definition same_label_crossings ::
  "('p, 'v, 'c) DelaunayGraphCut \<Rightarrow> bool \<Rightarrow> (index_t \<times> index_t) list" where
  "same_label_crossings S full =
     concat (map (\<lambda>c. concat (map (\<lambda>k.
        (let d = cellIndex (mirrorFacet (tetrahedralization S)
                              \<lparr>cellIndex = c, localVertexIndex = k\<rparr>)
         in if d \<noteq> NO_CELL \<and> label S c = full \<and> label S d = full then [(c, d)] else []))
        slots)) (cells (tetrahedralization S)))"

text \<open>
  Modelled from the spec: the component that \<^verbatim>\<open>segmentFullOrFree\<close> gives to cell \<open>c\<close>, as
  the list of its cells: \<open>c\<close> and the cells that a chain of same-label crossings reaches
  from \<open>c\<close>.
\<close>

definition component ::
  "('p, 'v, 'c) DelaunayGraphCut \<Rightarrow> bool \<Rightarrow> index_t \<Rightarrow> index_t list" where
  "component S full c =
     filter (\<lambda>d. d = c \<or> (c, d) \<in> (set (same_label_crossings S full))\<^sup>+)
       (cells (tetrahedralization S))"

text \<open>
  Modelled from the spec: the body of \<^verbatim>\<open>removeDust\<close> is missing. The specification (4.5):
  any full component with cell count below \<^verbatim>\<open>minSize\<close> is relabelled empty. The header
  declares \<^verbatim>\<open>int removeDust(int minSegSize)\<close>; the specification does not say what the
  returned \<^verbatim>\<open>int\<close> is, so only the new state is modelled.
\<close>

definition removeDust ::
  "('p, 'v, 'c) DelaunayGraphCut \<Rightarrow> c_int \<Rightarrow> ('p, 'v, 'c) DelaunayGraphCut" where
  "removeDust S minSegSize =
     S\<lparr>cellIsFull :=
         map (\<lambda>c. label S c \<and> \<not> int (length (component S True c)) < sint minSegSize)
           (cells (tetrahedralization S))\<rparr>"

text \<open>
  The adjacency of a cell complex relates cells of the complex, in both directions: a
  neighbour of a cell is a cell and has that cell as a neighbour.
\<close>

definition cell_adjacency_symmetric :: "delaunay \<Rightarrow> bool" where
  "cell_adjacency_symmetric T \<longleftrightarrow>
     list_all (\<lambda>c. list_all (\<lambda>k.
        cell_adjacent T c k \<noteq> NO_CELL \<longrightarrow>
        cell_adjacent T c k < nb_cells T \<and>
        list_ex (\<lambda>k'. cell_adjacent T (cell_adjacent T c k) k' = c) slots) slots) (cells T)"

subsection \<open>Surface extraction\<close>

text \<open>
  Modelled from the spec: \<^verbatim>\<open>GC_vertexInfo\<close> is declared in \<^verbatim>\<open>delaunayGraphCutTypes.hpp\<close>,
  which is missing. The specification (4.2, 4.6, glossary) says that ingestion marks the synthetic
  vertices (camera centres and lattice points), the helper points, so that surface
  extraction can exclude them. Only that mark is kept.
\<close>

record GC_vertexInfo =
  isHelper :: bool

text \<open>
  \<^verbatim>\<open>Mesh::triangle\<close> of \<^verbatim>\<open>Mesh.hpp\<close>: three vertex indices \<^verbatim>\<open>int v[3]\<close> and the flag
  \<^verbatim>\<open>alive\<close>, which the constructor \<^verbatim>\<open>triangle(a, b, c)\<close> sets to true (the array is the
  field \<open>tri_v\<close> here). Of \<^verbatim>\<open>Mesh\<close> the points and the triangles are kept.
\<close>

record triangle =
  tri_v :: "c_int list"
  alive :: bool

definition triangle_of :: "c_int \<Rightarrow> c_int \<Rightarrow> c_int \<Rightarrow> triangle" where
  "triangle_of a b c = \<lparr>tri_v = [a, b, c], alive = True\<rparr>"

record 'p Mesh =
  pts :: "'p list"
  tris :: "triangle list"

text \<open>All facets of the complex: every local slot of every cell.\<close>

definition all_facets :: "delaunay \<Rightarrow> Facet list" where
  "all_facets T =
     concat (map (\<lambda>ci. map (\<lambda>k. \<lparr>cellIndex = ci, localVertexIndex = k\<rparr>) slots) (cells T))"

text \<open>One of the three vertices of the facet is a helper point.\<close>

definition touches_helper :: "('p, GC_vertexInfo, 'c) DelaunayGraphCut \<Rightarrow> Facet \<Rightarrow> bool" where
  "touches_helper S f \<longleftrightarrow>
     list_ex (\<lambda>vi. isHelper (verticesAttr S ! unat vi)) (facetVertices (tetrahedralization S) f)"

text \<open>
  Modelled from the spec: the body of \<^verbatim>\<open>createMesh\<close> is missing. The specification (4.6):
  for every facet where the labels of the two incident cells differ (one full, one
  empty), emit a triangle using the facet's three vertices, oriented from the full side
  to the empty side; when \<^verbatim>\<open>filterHelperPointsTriangles\<close> is set, discard any triangle
  that references a helper vertex; infinite cells never contribute triangles. The
  scenario of section 8 expects one triangle for a single dividing facet. So the facet is
  taken on its full side: \<open>emits S flt f\<close> holds when the cell of \<open>f\<close> is full, the cell
  of its mirror exists and is empty, neither of the two is infinite, and the filter does
  not discard the facet.
\<close>

definition emits :: "('p, GC_vertexInfo, 'c) DelaunayGraphCut \<Rightarrow> bool \<Rightarrow> Facet \<Rightarrow> bool" where
  "emits S filterHelperPointsTriangles f \<longleftrightarrow>
     (let T = tetrahedralization S; m = mirrorFacet T f
      in label S (cellIndex f) \<and>
         \<not> isInvalidOrInfiniteCell T (cellIndex f) \<and>
         \<not> isInvalidOrInfiniteCell T (cellIndex m) \<and>
         \<not> label S (cellIndex m) \<and>
         \<not> (filterHelperPointsTriangles \<and> touches_helper S f))"

text \<open>
  Modelled from the spec: the triangle of a facet of a full cell. Its normal is to point
  from the full side, where the facet's opposite vertex lies, to the empty side. Whether
  the normal of three points points away from a fourth is a test on coordinates; it is
  the parameter \<open>outward\<close>. When the order of \<^verbatim>\<open>getVertexIndex\<close> fails the test, two vertices
  are exchanged.
\<close>

definition facet_triangle ::
  "('p, 'v, 'c) DelaunayGraphCut \<Rightarrow> ('p \<Rightarrow> 'p \<Rightarrow> 'p \<Rightarrow> 'p \<Rightarrow> bool) \<Rightarrow> Facet \<Rightarrow> triangle" where
  "facet_triangle S outward f =
     (let T = tetrahedralization S;
          a = getVertexIndex T f 0; b = getVertexIndex T f 1; c = getVertexIndex T f 2;
          d = getOppositeVertexIndex T f;
          P = (\<lambda>vi. verticesCoords S ! unat vi)
      in if outward (P a) (P b) (P c) (P d) then triangle_of a b c else triangle_of a c b)"

text \<open>
  Modelled from the spec: \<^verbatim>\<open>createMesh\<close> scans all facets and emits the triangle of each
  facet that \<open>emits\<close> accepts; the triangles reference the vertex indices of the complex
  and the points of the mesh are those of the complex.
\<close>

definition createMesh ::
  "('p, GC_vertexInfo, 'c) DelaunayGraphCut \<Rightarrow> ('p \<Rightarrow> 'p \<Rightarrow> 'p \<Rightarrow> 'p \<Rightarrow> bool) \<Rightarrow> bool \<Rightarrow> 'p Mesh" where
  "createMesh S outward filterHelperPointsTriangles =
     \<lparr>pts = verticesCoords S,
      tris = map (facet_triangle S outward)
               (filter (emits S filterHelperPointsTriangles)
                  (all_facets (tetrahedralization S)))\<rparr>"

text \<open>
  The triangles that \<^verbatim>\<open>createMesh\<close> emits for a facet: those on the facet's three
  vertices.
\<close>

definition triangles_on ::
  "('p, GC_vertexInfo, 'c) DelaunayGraphCut \<Rightarrow> ('p \<Rightarrow> 'p \<Rightarrow> 'p \<Rightarrow> 'p \<Rightarrow> bool) \<Rightarrow> bool \<Rightarrow> Facet
   \<Rightarrow> triangle list" where
  "triangles_on S outward filterHelperPointsTriangles f =
     filter (\<lambda>t. set (tri_v t) = set (facetVertices (tetrahedralization S) f))
       (tris (createMesh S outward filterHelperPointsTriangles))"

text \<open>
  In a triangulation a triangle is a facet of at most two cells, and then each of the two
  is the other's neighbour across it: two facets on the same three vertices are the same
  facet of the same cell, or facets of two cells adjacent across them.
\<close>

definition faces_shared_by_neighbours :: "delaunay \<Rightarrow> bool" where
  "faces_shared_by_neighbours T \<longleftrightarrow>
     list_all (\<lambda>f. list_all (\<lambda>g.
        set (facetVertices T f) = set (facetVertices T g) \<longrightarrow>
        f = g \<or>
        (cell_adjacent T (cellIndex f) (localVertexIndex f) = cellIndex g \<and>
         cell_adjacent T (cellIndex g) (localVertexIndex g) = cellIndex f))
       (all_facets T)) (all_facets T)"

text \<open>What surface extraction relies on in the backend.\<close>

definition triangulation :: "delaunay \<Rightarrow> bool" where
  "triangulation T \<longleftrightarrow>
     adjacent_symmetric T \<and> cell_adjacency_symmetric T \<and> distinct_cell_vertices T \<and>
     faces_shared_by_neighbours T"

text \<open>
  A state over \<open>two_tets\<close> in which cell 0 is full, cell 1 is empty and vertex 1, a
  vertex of the triangle between the two cells, is a helper point.
\<close>

definition helper_state :: "(unit, GC_vertexInfo, unit) DelaunayGraphCut" where
  "helper_state =
     \<lparr>tetrahedralization = two_tets, verticesCoords = replicate 5 (),
      verticesAttr = [\<lparr>isHelper = False\<rparr>, \<lparr>isHelper = True\<rparr>, \<lparr>isHelper = False\<rparr>,
                      \<lparr>isHelper = False\<rparr>, \<lparr>isHelper = False\<rparr>],
      cellsAttr = replicate 2 (), cellIsFull = [True, False], neighboringCellsPerVertex = []\<rparr>"

text \<open>An orientation test for states whose points carry no coordinates.\<close>

definition always :: "unit \<Rightarrow> unit \<Rightarrow> unit \<Rightarrow> unit \<Rightarrow> bool" where
  "always p0 p1 p2 q = True"

text \<open>
  Four tetrahedra in a row, \<open>i = (i, i + 1, i + 2, i + 3)\<close>, each glued to the next along
  the triangle they share. Cell 0 is full, cell 1 is empty, cells 2 and 3 are full.
\<close>

definition chain :: delaunay where
  "chain = delaunay_of_arrays
     [0, 1, 2, 3,   1, 2, 3, 4,   2, 3, 4, 5,   3, 4, 5, 6]
     [1, - 1, - 1, - 1,   2, - 1, - 1, 0,   3, - 1, - 1, 1,   - 1, - 1, - 1, 2]"

definition chain_state :: "(unit, unit, unit) DelaunayGraphCut" where
  "chain_state =
     \<lparr>tetrahedralization = chain, verticesCoords = replicate 7 (), verticesAttr = replicate 7 (),
      cellsAttr = replicate 4 (), cellIsFull = [True, False, True, True],
      neighboringCellsPerVertex = []\<rparr>"

subsection \<open>Notions used to state the cache's contents\<close>

text \<open>The set stored under a key of the temporary map; empty when the key is absent.\<close>

definition lookup :: "cells_per_vertex \<Rightarrow> index_t \<Rightarrow> index_t list" where
  "lookup m v = (case map_of m v of None \<Rightarrow> [] | Some s \<Rightarrow> s)"

text \<open>Slot \<open>k\<close> of cell \<open>ci\<close> passes the guard of the inner loop.\<close>

definition recorded :: "delaunay \<Rightarrow> nat \<Rightarrow> index_t \<Rightarrow> index_t \<Rightarrow> bool" where
  "recorded T n ci k \<longleftrightarrow> cell_vertex T ci k \<noteq> NO_VERTEX \<and> unat (cell_vertex T ci k) < n"

definition entries_ok :: "nat \<Rightarrow> cells_per_vertex \<Rightarrow> bool" where
  "entries_ok n m \<longleftrightarrow> (\<forall>(v, s) \<in> set m. distinct s \<and> sorted s \<and> unat v < n)"

text \<open>
  A state over \<open>two_tets\<close> with five vertices, on which \<^verbatim>\<open>updateVertexToCellsCache\<close> has
  not run.
\<close>

definition example_state :: "(unit, unit, unit) DelaunayGraphCut" where
  "example_state =
     \<lparr>tetrahedralization = two_tets, verticesCoords = replicate 5 (), verticesAttr = replicate 5 (),
      cellsAttr = replicate 2 (), cellIsFull = [True, False], neighboringCellsPerVertex = []\<rparr>"

section \<open>Properties\<close>

subsection \<open>Local slots\<close>

lemma lt4_cases: "(l::index_t) < 4 \<Longrightarrow> l = 0 \<or> l = 1 \<or> l = 2 \<or> l = 3"
proof -
  assume "l < 4"
  then have "unat l < 4" by (simp add: word_less_nat_alt)
  then have "unat l = 0 \<or> unat l = 1 \<or> unat l = 2 \<or> unat l = 3" by arith
  then show ?thesis by (auto simp: word_unat_eq_iff)
qed

lemma slots_iff: "k \<in> set slots \<longleftrightarrow> k < 4"
  by (auto simp: slots_def dest: lt4_cases)

lemma facetSlot_values:
  "facetSlot 0 0 = 1" "facetSlot 0 1 = 2" "facetSlot 0 2 = 3"
  "facetSlot 1 0 = 2" "facetSlot 1 1 = 3" "facetSlot 1 2 = 0"
  "facetSlot 2 0 = 3" "facetSlot 2 1 = 0" "facetSlot 2 2 = 1"
  "facetSlot 3 0 = 0" "facetSlot 3 1 = 1" "facetSlot 3 2 = 2"
  by (simp_all add: facetSlot_def)

lemma facetSlot_cover:
  assumes "l < 4"
  shows "distinct [l, facetSlot l 0, facetSlot l 1, facetSlot l 2]"
    and "set [l, facetSlot l 0, facetSlot l 1, facetSlot l 2] = {0, 1, 2, 3}"
  using lt4_cases [OF assms] by (auto simp: facetSlot_values)

lemma facetSlot_others:
  assumes "l < 4"
  shows "{facetSlot l 0, facetSlot l 1, facetSlot l 2} = set slots - {l}"
  using lt4_cases [OF assms] by (auto simp: facetSlot_values slots_def)

lemma set_facetVertices:
  assumes "localVertexIndex f < 4"
  shows "set (facetVertices T f) = cell_vertex T (cellIndex f) ` (set slots - {localVertexIndex f})"
proof -
  have "set (facetVertices T f) =
        cell_vertex T (cellIndex f) `
          {facetSlot (localVertexIndex f) 0, facetSlot (localVertexIndex f) 1,
           facetSlot (localVertexIndex f) 2}"
    by (simp add: facetVertices_def getVertexIndex_def)
  then show ?thesis by (simp only: facetSlot_others [OF assms])
qed

lemma cells_iff: "c \<in> set (cells T) \<longleftrightarrow> c < nb_cells T"
proof
  assume "c \<in> set (cells T)"
  then obtain n where n: "n < unat (nb_cells T)" "c = word_of_nat n"
    by (auto simp: cells_def)
  have "unat c = n" using n by (simp add: le_unat_uoi [of n "nb_cells T"])
  then show "c < nb_cells T" using n(1) by (simp add: word_less_nat_alt)
next
  assume "c < nb_cells T"
  then have "unat c < unat (nb_cells T)" by (simp add: word_less_nat_alt)
  moreover have "c = word_of_nat (unat c)" by simp
  ultimately show "c \<in> set (cells T)"
    unfolding cells_def by (metis (no_types, lifting) atLeastLessThan_iff image_eqI set_map set_upt zero_le)
qed

lemma cell_not_NO_CELL: "c < nb_cells T \<Longrightarrow> c \<noteq> NO_CELL"
  by (auto simp: NO_CELL_def)

subsection \<open>The example backend\<close>

lemma two_tets_nb_cells: "nb_cells two_tets = 2"
  by (simp add: two_tets_def delaunay_of_arrays_def)

lemma two_tets_cells: "cells two_tets = [0, 1]"
  by (simp add: two_tets_def delaunay_of_arrays_def cells_def upt_rec)

lemma two_tets_vertex:
  "cell_vertex two_tets 0 0 = 0" "cell_vertex two_tets 0 1 = 1"
  "cell_vertex two_tets 0 2 = 2" "cell_vertex two_tets 0 3 = 3"
  "cell_vertex two_tets 1 0 = 1" "cell_vertex two_tets 1 1 = 2"
  "cell_vertex two_tets 1 2 = 3" "cell_vertex two_tets 1 3 = 4"
  by (simp_all add: two_tets_def delaunay_of_arrays_def)

lemma two_tets_adjacent:
  "cell_adjacent two_tets 0 0 = 1" "cell_adjacent two_tets 0 1 = NO_CELL"
  "cell_adjacent two_tets 0 2 = NO_CELL" "cell_adjacent two_tets 0 3 = NO_CELL"
  "cell_adjacent two_tets 1 0 = NO_CELL" "cell_adjacent two_tets 1 1 = NO_CELL"
  "cell_adjacent two_tets 1 2 = NO_CELL" "cell_adjacent two_tets 1 3 = 0"
  by (simp_all add: two_tets_def delaunay_of_arrays_def NO_CELL_def)

lemma two_tets_symmetric: "adjacent_symmetric two_tets"
  by (simp add: adjacent_symmetric_def two_tets_cells slots_def two_tets_adjacent two_tets_vertex
      facetVertices_def getVertexIndex_def facetSlot_values NO_CELL_def)

lemma two_tets_distinct: "distinct_cell_vertices two_tets"
  by (simp add: distinct_cell_vertices_def two_tets_cells slots_def two_tets_vertex)

lemma two_tets_mirror:
  "mirrorFacet two_tets \<lparr>cellIndex = 0, localVertexIndex = 0\<rparr> = \<lparr>cellIndex = 1, localVertexIndex = 3\<rparr>"
  by (simp add: mirrorFacet_def Let_def Facet_default_def two_tets_adjacent two_tets_vertex
      facetVertices_def getVertexIndex_def facetSlot_values NO_CELL_def slots_def)

subsection \<open>mirrorFacet, case by case\<close>

lemma slot_not_NO_VERTEX: "k \<in> set slots \<Longrightarrow> k \<noteq> NO_VERTEX"
  by (auto simp: slots_def NO_VERTEX_def)

lemma find_only:
  "x \<in> set xs \<Longrightarrow> P x \<Longrightarrow> (\<And>y. y \<in> set xs \<Longrightarrow> y \<noteq> x \<Longrightarrow> \<not> P y) \<Longrightarrow> find P xs = Some x"
  by (induction xs) auto

lemma mirrorFacet_cellIndex:
  "cellIndex (mirrorFacet T f) = cell_adjacent T (cellIndex f) (localVertexIndex f)"
  by (simp add: mirrorFacet_def Let_def Facet_default_def split: option.split)

lemma mirrorFacet_boundary:
  "cell_adjacent T (cellIndex f) (localVertexIndex f) = NO_CELL \<Longrightarrow> mirrorFacet T f = Facet_default"
  by (simp add: mirrorFacet_def Let_def Facet_default_def)

lemma mirrorFacet_found:
  assumes "cell_adjacent T (cellIndex f) (localVertexIndex f) \<noteq> NO_CELL"
    and "find (\<lambda>k. cell_vertex T (cell_adjacent T (cellIndex f) (localVertexIndex f)) k
                     \<notin> set (facetVertices T f)) slots = Some k"
  shows "mirrorFacet T f =
         \<lparr>cellIndex = cell_adjacent T (cellIndex f) (localVertexIndex f), localVertexIndex = k\<rparr>"
  using assms by (simp add: mirrorFacet_def Let_def Facet_default_def)

lemma mirrorFacet_not_found:
  assumes "find (\<lambda>k. cell_vertex T (cell_adjacent T (cellIndex f) (localVertexIndex f)) k
                     \<notin> set (facetVertices T f)) slots = None"
  shows "localVertexIndex (mirrorFacet T f) = NO_VERTEX"
  using assms by (simp add: mirrorFacet_def Let_def Facet_default_def)

subsection \<open>Facet vertices\<close>

text \<open>
  C5. For a facet whose \<^verbatim>\<open>localVertexIndex\<close> is one of 0, 1, 2, 3, the slot read by
  \<^verbatim>\<open>getOppositeVertexIndex\<close> and the three slots \<^verbatim>\<open>(localVertexIndex + i + 1) % 4\<close> read by
  \<^verbatim>\<open>getVertexIndex\<close> for \<open>i = 0, 1, 2\<close> are pairwise distinct and are all four slots of the
  cell. So the three vertices of the facet are the cell's vertices at the slots other than
  the opposite one.
\<close>

theorem facet_slots_cover:
  assumes "localVertexIndex f < 4"
  shows "distinct [localVertexIndex f, facetSlot (localVertexIndex f) 0,
                   facetSlot (localVertexIndex f) 1, facetSlot (localVertexIndex f) 2] \<and>
         set [localVertexIndex f, facetSlot (localVertexIndex f) 0,
              facetSlot (localVertexIndex f) 1, facetSlot (localVertexIndex f) 2] = {0, 1, 2, 3} \<and>
         getOppositeVertexIndex T f = cell_vertex T (cellIndex f) (localVertexIndex f) \<and>
         facetVertices T f =
           map (cell_vertex T (cellIndex f))
             [facetSlot (localVertexIndex f) 0, facetSlot (localVertexIndex f) 1,
              facetSlot (localVertexIndex f) 2] \<and>
         set (facetVertices T f) =
           cell_vertex T (cellIndex f) ` ({0, 1, 2, 3} - {localVertexIndex f})"
proof -
  have s: "set slots = {0, 1, 2, 3}" by (auto simp: slots_def)
  have 1: "distinct [localVertexIndex f, facetSlot (localVertexIndex f) 0,
                   facetSlot (localVertexIndex f) 1, facetSlot (localVertexIndex f) 2]"
    by (rule facetSlot_cover(1) [OF assms])
  have 2: "set [localVertexIndex f, facetSlot (localVertexIndex f) 0,
              facetSlot (localVertexIndex f) 1, facetSlot (localVertexIndex f) 2] = {0, 1, 2, 3}"
    by (rule facetSlot_cover(2) [OF assms])
  have 3: "getOppositeVertexIndex T f = cell_vertex T (cellIndex f) (localVertexIndex f)"
    by (simp add: getOppositeVertexIndex_def)
  have 4: "facetVertices T f =
           map (cell_vertex T (cellIndex f))
             [facetSlot (localVertexIndex f) 0, facetSlot (localVertexIndex f) 1,
              facetSlot (localVertexIndex f) 2]"
    by (simp add: facetVertices_def getVertexIndex_def)
  have 5: "set (facetVertices T f) =
           cell_vertex T (cellIndex f) ` ({0, 1, 2, 3} - {localVertexIndex f})"
    using set_facetVertices [OF assms, of T] by (simp only: s)
  from 1 2 3 4 5 show ?thesis by blast
qed

theorem facet_slots_cover_witness:
  "(2 :: index_t) < 4 \<and>
   distinct [2, facetSlot 2 0, facetSlot 2 1, facetSlot 2 2 :: index_t] \<and>
   set [2, facetSlot 2 0, facetSlot 2 1, facetSlot 2 2] = {0, 1, 2, 3 :: index_t} \<and>
   getOppositeVertexIndex two_tets \<lparr>cellIndex = 1, localVertexIndex = 2\<rparr> = 3 \<and>
   set (facetVertices two_tets \<lparr>cellIndex = 1, localVertexIndex = 2\<rparr>) =
     cell_vertex two_tets 1 ` ({0, 1, 2, 3} - {2})"
proof -
  have h: "localVertexIndex \<lparr>cellIndex = 1, localVertexIndex = 2\<rparr> < 4" by simp
  have v: "cell_vertex two_tets 1 2 = 3" by (rule two_tets_vertex)
  note t = facet_slots_cover [OF h, of two_tets, unfolded Facet.select_convs]
  from t have a: "distinct [2, facetSlot 2 0, facetSlot 2 1, facetSlot 2 2 :: index_t]"
    and b: "set [2, facetSlot 2 0, facetSlot 2 1, facetSlot 2 2] = {0, 1, 2, 3 :: index_t}"
    and c: "getOppositeVertexIndex two_tets \<lparr>cellIndex = 1, localVertexIndex = 2\<rparr> =
          cell_vertex two_tets 1 2"
    and e: "set (facetVertices two_tets \<lparr>cellIndex = 1, localVertexIndex = 2\<rparr>) =
          cell_vertex two_tets 1 ` ({0, 1, 2, 3} - {2})"
    by blast+
  have c': "getOppositeVertexIndex two_tets \<lparr>cellIndex = 1, localVertexIndex = 2\<rparr> = 3"
    using c v by simp
  have lt: "(2 :: index_t) < 4" by simp
  from lt a b c' e show ?thesis by blast
qed

subsection \<open>The mirror of a facet\<close>

text \<open>
  C3. When there is no adjacent cell across a facet, \<^verbatim>\<open>mirrorFacet\<close> returns the facet
  whose cell index is \<^verbatim>\<open>NO_CELL\<close>. When there is one, and exactly one of its four slots
  holds a vertex that is not among the three vertices of the facet, \<^verbatim>\<open>mirrorFacet\<close> returns
  the facet of the adjacent cell with that slot as local opposite vertex; its opposite
  vertex is then not a vertex of the input facet.
\<close>

theorem mirrorFacet_absent_vertex:
  "(cell_adjacent T (cellIndex f) (localVertexIndex f) = NO_CELL \<longrightarrow>
      mirrorFacet T f = \<lparr>cellIndex = NO_CELL, localVertexIndex = NO_VERTEX\<rparr>) \<and>
   (cell_adjacent T (cellIndex f) (localVertexIndex f) \<noteq> NO_CELL \<longrightarrow>
      (\<forall>k \<in> {0, 1, 2, 3}.
         cell_vertex T (cell_adjacent T (cellIndex f) (localVertexIndex f)) k
           \<notin> set (facetVertices T f) \<and>
         (\<forall>j \<in> {0, 1, 2, 3}. j \<noteq> k \<longrightarrow>
            cell_vertex T (cell_adjacent T (cellIndex f) (localVertexIndex f)) j
              \<in> set (facetVertices T f)) \<longrightarrow>
         mirrorFacet T f =
           \<lparr>cellIndex = cell_adjacent T (cellIndex f) (localVertexIndex f),
            localVertexIndex = k\<rparr> \<and>
         getOppositeVertexIndex T (mirrorFacet T f) \<notin> set (facetVertices T f)))"
proof -
  let ?c' = "cell_adjacent T (cellIndex f) (localVertexIndex f)"
  have boundary: "?c' = NO_CELL \<longrightarrow>
      mirrorFacet T f = \<lparr>cellIndex = NO_CELL, localVertexIndex = NO_VERTEX\<rparr>"
    using mirrorFacet_boundary [of T f] by (simp add: Facet_default_def)
  have inner: "mirrorFacet T f = \<lparr>cellIndex = ?c', localVertexIndex = k\<rparr> \<and>
             getOppositeVertexIndex T (mirrorFacet T f) \<notin> set (facetVertices T f)"
    if adj: "?c' \<noteq> NO_CELL" and k: "k \<in> {0, 1, 2, 3}"
      and only: "cell_vertex T ?c' k \<notin> set (facetVertices T f) \<and>
        (\<forall>j \<in> {0, 1, 2, 3}. j \<noteq> k \<longrightarrow> cell_vertex T ?c' j \<in> set (facetVertices T f))"
    for k :: index_t
  proof -
    have s: "set slots = {0, 1, 2, 3}" by (auto simp: slots_def)
    have "find (\<lambda>k. cell_vertex T ?c' k \<notin> set (facetVertices T f)) slots = Some k"
      by (rule find_only [where P = "\<lambda>k. cell_vertex T ?c' k \<notin> set (facetVertices T f)"])
         (use k only s in auto)
    then have "mirrorFacet T f = \<lparr>cellIndex = ?c', localVertexIndex = k\<rparr>"
      by (rule mirrorFacet_found [OF adj])
    then show ?thesis using only by (simp add: getOppositeVertexIndex_def)
  qed
  from boundary inner show ?thesis by blast
qed

theorem mirrorFacet_absent_vertex_witness:
  "cell_adjacent two_tets 0 0 \<noteq> NO_CELL \<and>
   mirrorFacet two_tets \<lparr>cellIndex = 0, localVertexIndex = 0\<rparr> =
     \<lparr>cellIndex = 1, localVertexIndex = 3\<rparr> \<and>
   cell_adjacent two_tets 0 1 = NO_CELL \<and>
   mirrorFacet two_tets \<lparr>cellIndex = 0, localVertexIndex = 1\<rparr> =
     \<lparr>cellIndex = NO_CELL, localVertexIndex = NO_VERTEX\<rparr>"
proof -
  have fv: "set (facetVertices two_tets \<lparr>cellIndex = 0, localVertexIndex = 0\<rparr>) = {1, 2, 3}"
    by (simp add: facetVertices_def getVertexIndex_def facetSlot_values two_tets_vertex)
  show ?thesis
    using mirrorFacet_absent_vertex [of two_tets "\<lparr>cellIndex = 0, localVertexIndex = 0\<rparr>"]
      mirrorFacet_absent_vertex [of two_tets "\<lparr>cellIndex = 0, localVertexIndex = 1\<rparr>"]
    by (simp add: two_tets_adjacent two_tets_vertex fv NO_CELL_def)
qed

lemma misglued_cells: "cells misglued_tets = [0, 1]" "nb_cells misglued_tets = 2"
  by (simp_all add: misglued_tets_def delaunay_of_arrays_def cells_def upt_rec)

lemma misglued_vertex:
  "cell_vertex misglued_tets 0 0 = 0" "cell_vertex misglued_tets 0 1 = 1"
  "cell_vertex misglued_tets 0 2 = 2" "cell_vertex misglued_tets 0 3 = 3"
  "cell_vertex misglued_tets 1 0 = 1" "cell_vertex misglued_tets 1 1 = 2"
  "cell_vertex misglued_tets 1 2 = 3" "cell_vertex misglued_tets 1 3 = 4"
  by (simp_all add: misglued_tets_def delaunay_of_arrays_def)

lemma misglued_adjacent:
  "cell_adjacent misglued_tets 0 0 = 1" "cell_adjacent misglued_tets 0 1 = NO_CELL"
  "cell_adjacent misglued_tets 0 2 = NO_CELL" "cell_adjacent misglued_tets 0 3 = NO_CELL"
  "cell_adjacent misglued_tets 1 0 = 0" "cell_adjacent misglued_tets 1 1 = NO_CELL"
  "cell_adjacent misglued_tets 1 2 = NO_CELL" "cell_adjacent misglued_tets 1 3 = NO_CELL"
  by (simp_all add: misglued_tets_def delaunay_of_arrays_def NO_CELL_def)

lemma misglued_facts:
  "cell_adjacency_symmetric misglued_tets" "non_infinite_cells_distinct misglued_tets"
  "mirrorFacet misglued_tets \<lparr>cellIndex = 0, localVertexIndex = 0\<rparr> =
     \<lparr>cellIndex = 1, localVertexIndex = 3\<rparr>"
  "mirrorFacet misglued_tets \<lparr>cellIndex = 1, localVertexIndex = 3\<rparr> =
     \<lparr>cellIndex = NO_CELL, localVertexIndex = NO_VERTEX\<rparr>"
  by (simp_all add: cell_adjacency_symmetric_def non_infinite_cells_distinct_def misglued_cells
      slots_def misglued_vertex misglued_adjacent mirrorFacet_def Let_def Facet_default_def
      facetVertices_def getVertexIndex_def facetSlot_values NO_CELL_def NO_VERTEX_def)

lemma infinite_pair_cells: "cells infinite_pair = [0, 1, 2]" "nb_cells infinite_pair = 3"
  by (simp_all add: infinite_pair_def delaunay_of_arrays_def cells_def upt_rec)

lemma infinite_pair_vertex:
  "cell_vertex infinite_pair 0 0 = 0" "cell_vertex infinite_pair 0 1 = 1"
  "cell_vertex infinite_pair 0 2 = NO_VERTEX" "cell_vertex infinite_pair 0 3 = NO_VERTEX"
  "cell_vertex infinite_pair 1 0 = 0" "cell_vertex infinite_pair 1 1 = 1"
  "cell_vertex infinite_pair 1 2 = NO_VERTEX" "cell_vertex infinite_pair 1 3 = 5"
  "cell_vertex infinite_pair 2 0 = 6" "cell_vertex infinite_pair 2 1 = 7"
  "cell_vertex infinite_pair 2 2 = 8" "cell_vertex infinite_pair 2 3 = 9"
  by (simp_all add: infinite_pair_def delaunay_of_arrays_def NO_VERTEX_def)

lemma infinite_pair_adjacent:
  "cell_adjacent infinite_pair 0 0 = NO_CELL" "cell_adjacent infinite_pair 0 1 = NO_CELL"
  "cell_adjacent infinite_pair 0 2 = NO_CELL" "cell_adjacent infinite_pair 0 3 = 1"
  "cell_adjacent infinite_pair 1 0 = NO_CELL" "cell_adjacent infinite_pair 1 1 = NO_CELL"
  "cell_adjacent infinite_pair 1 2 = NO_CELL" "cell_adjacent infinite_pair 1 3 = 0"
  "cell_adjacent infinite_pair 2 0 = NO_CELL" "cell_adjacent infinite_pair 2 1 = NO_CELL"
  "cell_adjacent infinite_pair 2 2 = NO_CELL" "cell_adjacent infinite_pair 2 3 = NO_CELL"
  by (simp_all add: infinite_pair_def delaunay_of_arrays_def NO_CELL_def)

lemma infinite_pair_infinite:
  "isInfiniteCell infinite_pair 0" "isInfiniteCell infinite_pair 1"
  "\<not> isInfiniteCell infinite_pair 2"
  by (simp_all add: isInfiniteCell_def infinite_pair_def delaunay_of_arrays_def upt_rec)

lemma infinite_pair_facts:
  "adjacent_symmetric infinite_pair" "cell_adjacency_symmetric infinite_pair"
  "non_infinite_cells_distinct infinite_pair"
  "mirrorFacet infinite_pair \<lparr>cellIndex = 0, localVertexIndex = 3\<rparr> =
     \<lparr>cellIndex = 1, localVertexIndex = 3\<rparr>"
  "mirrorFacet infinite_pair \<lparr>cellIndex = 1, localVertexIndex = 3\<rparr> =
     \<lparr>cellIndex = 0, localVertexIndex = NO_VERTEX\<rparr>"
  by (simp_all add: adjacent_symmetric_def cell_adjacency_symmetric_def
      non_infinite_cells_distinct_def infinite_pair_cells infinite_pair_infinite
      slots_def infinite_pair_vertex infinite_pair_adjacent mirrorFacet_def Let_def
      Facet_default_def facetVertices_def getVertexIndex_def facetSlot_values
      NO_CELL_def NO_VERTEX_def)

text \<open>
  C1 as stated fails. In \<open>misglued_tets\<close> adjacency is symmetric between cells and every
  cell has four distinct vertex references; the mirror of facet 0 of cell 0 is defined,
  facet 3 of cell 1, and the mirror of that is the default facet. In \<open>infinite_pair\<close>
  adjacency is symmetric facet by facet and the only non-infinite cell has four distinct
  vertex references; the mirror of facet 3 of cell 0 is defined, facet 3 of cell 1, and
  the mirror of that has no local vertex index.
\<close>

theorem mirrorFacet_involution_counterexample:
  "(cell_adjacency_symmetric misglued_tets \<and> non_infinite_cells_distinct misglued_tets \<and>
    mirrorFacet misglued_tets \<lparr>cellIndex = 0, localVertexIndex = 0\<rparr> =
      \<lparr>cellIndex = 1, localVertexIndex = 3\<rparr> \<and>
    mirrorFacet misglued_tets (mirrorFacet misglued_tets \<lparr>cellIndex = 0, localVertexIndex = 0\<rparr>)
      \<noteq> \<lparr>cellIndex = 0, localVertexIndex = 0\<rparr>) \<and>
   (adjacent_symmetric infinite_pair \<and> cell_adjacency_symmetric infinite_pair \<and>
    non_infinite_cells_distinct infinite_pair \<and>
    mirrorFacet infinite_pair \<lparr>cellIndex = 0, localVertexIndex = 3\<rparr> =
      \<lparr>cellIndex = 1, localVertexIndex = 3\<rparr> \<and>
    mirrorFacet infinite_pair (mirrorFacet infinite_pair \<lparr>cellIndex = 0, localVertexIndex = 3\<rparr>)
      \<noteq> \<lparr>cellIndex = 0, localVertexIndex = 3\<rparr>)"
  by (simp add: misglued_facts infinite_pair_facts NO_CELL_def NO_VERTEX_def)
text \<open>
  C1, amended. In a backend whose adjacency is symmetric facet by facet (the neighbour
  across a facet has a facet on the same three vertices whose neighbour is the first
  cell) and whose cells, infinite ones included, all have four distinct vertex
  references, for every facet \<open>f\<close> (a cell of the backend and a local index below 4)
  whose mirror is defined (its cell index is not \<^verbatim>\<open>NO_CELL\<close> and its local vertex index was
  found, so is not \<^verbatim>\<open>NO_VERTEX\<close>), the mirror of the mirror is \<open>f\<close>.
\<close>

theorem mirrorFacet_involution:
  assumes sym: "adjacent_symmetric T"
    and dist: "distinct_cell_vertices T"
    and cell: "cellIndex f < nb_cells T"
    and slot: "localVertexIndex f < 4"
    and def1: "cellIndex (mirrorFacet T f) \<noteq> NO_CELL"
    and def2: "localVertexIndex (mirrorFacet T f) \<noteq> NO_VERTEX"
  shows "mirrorFacet T (mirrorFacet T f) = f"
proof -
  define c l where "c = cellIndex f" and "l = localVertexIndex f"
  define c' where "c' = cell_adjacent T c l"
  have f_eq: "f = \<lparr>cellIndex = c, localVertexIndex = l\<rparr>" by (simp add: c_def l_def)
  have c_in: "c \<in> set (cells T)" and l_in: "l \<in> set slots"
    using cell slot by (simp_all add: cells_iff slots_iff c_def l_def)
  have adj: "c' \<noteq> NO_CELL" using def1 by (simp add: mirrorFacet_cellIndex c'_def c_def l_def)
  obtain k where k: "find (\<lambda>k. cell_vertex T c' k \<notin> set (facetVertices T f)) slots = Some k"
    using def2 mirrorFacet_not_found [of T f] unfolding c'_def c_def l_def by (cases "find (\<lambda>k. cell_vertex T (cell_adjacent T (cellIndex f) (localVertexIndex f)) k \<notin> set (facetVertices T f)) slots") auto
  have m: "mirrorFacet T f = \<lparr>cellIndex = c', localVertexIndex = k\<rparr>"
    using mirrorFacet_found [of T f k] adj k unfolding c'_def c_def l_def by simp
  have k_in: "k \<in> set slots" and k_absent: "cell_vertex T c' k \<notin> set (facetVertices T f)"
    using k by (auto simp: find_Some_iff)
  from sym c_in l_in adj obtain lf' where lf': "lf' \<in> set slots" "cell_adjacent T c' lf' = c"
    "set (facetVertices T \<lparr>cellIndex = c', localVertexIndex = lf'\<rparr>) = set (facetVertices T f)"
    unfolding adjacent_symmetric_def c'_def list_all_iff list_ex_iff f_eq by blast
  have shared: "cell_vertex T c' ` (set slots - {lf'}) = set (facetVertices T f)"
    using lf'(1,3) set_facetVertices [of "\<lparr>cellIndex = c', localVertexIndex = lf'\<rparr>" T]
    by (simp add: slots_iff)
  have k_eq: "k = lf'"
  proof (rule ccontr)
    assume "k \<noteq> lf'"
    then have "cell_vertex T c' k \<in> cell_vertex T c' ` (set slots - {lf'})" using k_in by blast
    then show False using k_absent shared by simp
  qed
  have adj_back: "cell_adjacent T c' k = c" using lf'(2) k_eq by simp
  have F': "set (facetVertices T \<lparr>cellIndex = c', localVertexIndex = k\<rparr>) = set (facetVertices T f)"
    using lf'(3) k_eq by simp
  have Fc: "set (facetVertices T f) = cell_vertex T c ` (set slots - {l})"
    using set_facetVertices [OF slot, of T] by (simp add: c_def l_def)
  have inj: "inj_on (cell_vertex T c) (set slots)"
    using dist c_in by (simp add: distinct_cell_vertices_def list_all_iff distinct_map)
  have l_absent: "cell_vertex T c l \<notin> set (facetVertices T f)"
    unfolding Fc using inj l_in by (auto dest: inj_onD)
  have others: "\<And>j. j \<in> set slots \<Longrightarrow> j \<noteq> l \<Longrightarrow> \<not> cell_vertex T c j \<notin> set (facetVertices T f)"
    unfolding Fc by blast
  have "find (\<lambda>j. cell_vertex T c j \<notin> set (facetVertices T f)) slots = Some l"
    by (rule find_only [where P = "\<lambda>j. cell_vertex T c j \<notin> set (facetVertices T f)", OF l_in l_absent others])
  moreover have "c \<noteq> NO_CELL" using cell cell_not_NO_CELL by (simp add: c_def)
  ultimately have "mirrorFacet T \<lparr>cellIndex = c', localVertexIndex = k\<rparr> = \<lparr>cellIndex = c, localVertexIndex = l\<rparr>"
    using mirrorFacet_found [of T "\<lparr>cellIndex = c', localVertexIndex = k\<rparr>" l] adj_back F' by simp
  then show ?thesis using m f_eq by simp
qed


theorem mirrorFacet_involution_witness:
  "adjacent_symmetric two_tets \<and> distinct_cell_vertices two_tets \<and>
   mirrorFacet two_tets \<lparr>cellIndex = 0, localVertexIndex = 0\<rparr> = \<lparr>cellIndex = 1, localVertexIndex = 3\<rparr> \<and>
   mirrorFacet two_tets \<lparr>cellIndex = 1, localVertexIndex = 3\<rparr> = \<lparr>cellIndex = 0, localVertexIndex = 0\<rparr>"
  using mirrorFacet_involution [of two_tets "\<lparr>cellIndex = 0, localVertexIndex = 0\<rparr>"]
  by (simp add: two_tets_symmetric two_tets_distinct two_tets_mirror two_tets_nb_cells
      NO_CELL_def NO_VERTEX_def)

subsection \<open>The temporary map\<close>

lemma set_set_insert: "set (set_insert x s) = insert x (set s)"
  by (auto simp: set_insert_def set_insort_key)

lemma distinct_set_insert: "distinct s \<Longrightarrow> distinct (set_insert x s)"
  by (simp add: set_insert_def distinct_insort)

lemma sorted_set_insert: "sorted s \<Longrightarrow> sorted (set_insert x s)"
  by (simp add: set_insert_def sorted_insort)

lemma keys_map_modify: "fst ` set (map_modify k f m) = insert k (fst ` set m)"
  by (induction k f m rule: map_modify.induct) auto

lemma sorted_keys_map_modify:
  "sorted_wrt (<) (map fst m) \<Longrightarrow> sorted_wrt (<) (map fst (map_modify k f m))"
proof (induction k f m rule: map_modify.induct)
  case (1 k f)
  then show ?case by simp
next
  case (2 k f a s m)
  show ?case
  proof (cases "k < a")
    case True
    with 2 show ?thesis by (auto simp: )
  next
    case False
    show ?thesis
    proof (cases "k = a")
      case True
      with 2 show ?thesis by simp
    next
      case ne: False
      with False have "a < k" by auto
      moreover have "sorted_wrt (<) (map fst (map_modify k f m))" using 2 False ne by simp
      moreover have "\<forall>x \<in> fst ` set (map_modify k f m). a < x"
        using 2(2) \<open>a < k\<close> by (auto simp: keys_map_modify)
      ultimately show ?thesis using False ne by auto
    qed
  qed
qed

lemma map_of_below:
  "sorted_wrt (<) (a # map fst m) \<Longrightarrow> k \<le> a \<Longrightarrow> map_of m (k::index_t) = None"
  by (fastforce simp: map_of_eq_None_iff)

lemma lookup_map_modify:
  "sorted_wrt (<) (map fst m) \<Longrightarrow>
   lookup (map_modify k f m) v = (if v = k then f (lookup m k) else lookup m v)"
proof (induction k f m rule: map_modify.induct)
  case (1 k f)
  then show ?case by (simp add: lookup_def)
next
  case (2 k f a s m)
  have below: "k < a \<Longrightarrow> map_of m k = None"
    using 2(2) map_of_below [of a m k] by simp
  show ?case
    using 2 below by (auto simp: lookup_def)
qed

lemma entries_map_modify:
  "(v, s) \<in> set (map_modify k f m) \<Longrightarrow>
   (v, s) \<in> set m \<or> (v = k \<and> (s = f [] \<or> (\<exists>s0. (k, s0) \<in> set m \<and> s = f s0)))"
  by (induction k f m rule: map_modify.induct) (auto split: if_splits)


lemma foldl_nested:
  "foldl (\<lambda>m c. foldl (\<lambda>m k. g m c k) m ks) m cs =
   foldl (\<lambda>m (c, k). g m c k) m (List.product cs ks)"
proof (induction cs arbitrary: m)
  case Nil
  then show ?case by simp
next
  case (Cons c cs)
  have "foldl (\<lambda>m (c, k). g m c k) m (map (Pair c) ks) = foldl (\<lambda>m k. g m c k) m ks"
    by (induction ks arbitrary: m) simp_all
  then show ?case using Cons by simp
qed

lemma tmp_as_pairs:
  "neighboringCellsPerVertexTmp T n =
   foldl (\<lambda>m (ci, k). cache_step T n m ci k) [] (List.product (cells T) slots)"
  unfolding neighboringCellsPerVertexTmp_def by (rule foldl_nested)

lemma sorted_keys_cache_step:
  "sorted_wrt (<) (map fst m) \<Longrightarrow> sorted_wrt (<) (map fst (cache_step T n m ci k))"
  by (simp add: cache_step_def Let_def sorted_keys_map_modify)

lemma lookup_cache_step:
  "sorted_wrt (<) (map fst m) \<Longrightarrow>
   lookup (cache_step T n m ci k) v =
     (if recorded T n ci k \<and> v = cell_vertex T ci k then set_insert ci (lookup m v)
      else lookup m v)"
  by (auto simp: cache_step_def Let_def lookup_map_modify recorded_def)

lemma entries_ok_cache_step:
  assumes "entries_ok n m"
  shows "entries_ok n (cache_step T n m ci k)"
proof (cases "cell_vertex T ci k = NO_VERTEX \<or> n \<le> unat (cell_vertex T ci k)")
  case True
  then show ?thesis using assms by (simp add: cache_step_def)
next
  case False
  have "distinct s \<and> sorted s \<and> unat v < n"
    if "(v, s) \<in> set (map_modify (cell_vertex T ci k) (set_insert ci) m)" for v s
  proof -
    from entries_map_modify [OF that]
    consider "(v, s) \<in> set m" | "v = cell_vertex T ci k" "s = set_insert ci []"
      | s0 where "v = cell_vertex T ci k" "(v, s0) \<in> set m" "s = set_insert ci s0"
      by blast
    then show ?thesis
    proof cases
      case 1
      then show ?thesis using assms by (auto simp: entries_ok_def)
    next
      case 2
      then show ?thesis using False by (simp add: set_insert_def)
    next
      case 3
      then have "distinct s0 \<and> sorted s0" using assms by (auto simp: entries_ok_def)
      then show ?thesis using 3 False by (simp add: distinct_set_insert sorted_set_insert)
    qed
  qed
  then show ?thesis using False by (auto simp: entries_ok_def cache_step_def)
qed

lemma fold_cache_step:
  assumes "sorted_wrt (<) (map fst m)" and "entries_ok n m"
  shows "sorted_wrt (<) (map fst (foldl (\<lambda>m (ci, k). cache_step T n m ci k) m ps)) \<and>
         entries_ok n (foldl (\<lambda>m (ci, k). cache_step T n m ci k) m ps) \<and>
         (\<forall>v. set (lookup (foldl (\<lambda>m (ci, k). cache_step T n m ci k) m ps) v) =
              set (lookup m v) \<union>
              {ci. \<exists>k. (ci, k) \<in> set ps \<and> recorded T n ci k \<and> cell_vertex T ci k = v})"
  using assms
proof (induction ps arbitrary: m)
  case Nil
  then show ?case by simp
next
  case (Cons p ps)
  obtain ci k where p: "p = (ci, k)" by (cases p)
  let ?m' = "cache_step T n m ci k"
  have s': "sorted_wrt (<) (map fst ?m')" using Cons.prems(1) by (rule sorted_keys_cache_step)
  have e': "entries_ok n ?m'" using Cons.prems(2) by (rule entries_ok_cache_step)
  note IH = Cons.IH [OF s' e']
  have l: "\<And>v. set (lookup ?m' v) =
      set (lookup m v) \<union> (if recorded T n ci k \<and> v = cell_vertex T ci k then {ci} else {})"
    by (simp add: lookup_cache_step [OF Cons.prems(1)] set_set_insert)
  show ?case
    using IH unfolding p by (auto simp: l split: if_splits)
qed

lemma tmp_properties:
  "sorted_wrt (<) (map fst (neighboringCellsPerVertexTmp T n))"
  "entries_ok n (neighboringCellsPerVertexTmp T n)"
  "set (lookup (neighboringCellsPerVertexTmp T n) v) =
     {ci \<in> set (cells T). \<exists>k \<in> set slots. recorded T n ci k \<and> cell_vertex T ci k = v}"
  using fold_cache_step [of "[]" n T "List.product (cells T) slots"]
  by (auto simp: tmp_as_pairs entries_ok_def lookup_def)

lemma length_assign_all: "length (assign_all out m) = length out"
  unfolding assign_all_def by (induction m arbitrary: out) auto

lemma assign_all_other:
  "\<forall>(v, s) \<in> set m. unat v \<noteq> i \<Longrightarrow> assign_all out m ! i = out ! i"
  unfolding assign_all_def by (induction m arbitrary: out) auto

lemma assign_all_key:
  "distinct (map fst m) \<Longrightarrow> (v, s) \<in> set m \<Longrightarrow> unat v < length out \<Longrightarrow>
   assign_all out m ! unat v = s"
proof (induction m arbitrary: out)
  case Nil
  then show ?case by simp
next
  case (Cons p m)
  obtain a t where p: "p = (a, t)" by (cases p)
  show ?case
  proof (cases "(v, s) = (a, t)")
    case True
    then have "\<forall>(v', s') \<in> set m. unat v' \<noteq> unat v"
      using Cons.prems(1) p by (auto simp: word_unat_eq_iff [symmetric] image_iff)
    then have "assign_all (out[unat a := t]) m ! unat v = out[unat a := t] ! unat v"
      by (rule assign_all_other)
    then show ?thesis using True Cons.prems(3) p by (simp add: assign_all_def)
  next
    case False
    then have "(v, s) \<in> set m" using Cons.prems(2) p by auto
    then have "assign_all (out[unat a := t]) m ! unat v = s"
      using Cons.IH [of "out[unat a := t]"] Cons.prems(1,3) by simp
    then show ?thesis using p by (simp add: assign_all_def)
  qed
qed

lemma assign_all_cases:
  "i < length out \<Longrightarrow> assign_all out m ! i = out ! i \<or> (\<exists>(v, s) \<in> set m. assign_all out m ! i = s)"
proof (induction m arbitrary: out)
  case Nil
  then show ?case by (simp add: assign_all_def)
next
  case (Cons p m)
  obtain a t where p: "p = (a, t)" by (cases p)
  have eq: "assign_all out (p # m) = assign_all (out[unat a := t]) m"
    by (simp add: assign_all_def p)
  from Cons.IH [of "out[unat a := t]"] Cons.prems
  have "assign_all (out[unat a := t]) m ! i = out[unat a := t] ! i \<or>
        (\<exists>(v, s) \<in> set m. assign_all (out[unat a := t]) m ! i = s)" by simp
  then show ?case unfolding eq using p Cons.prems by (cases "i = unat a") auto
qed

lemma strict_sorted_distinct: "sorted_wrt (<) (xs :: index_t list) \<Longrightarrow> distinct xs"
  by (induction xs) auto

lemma cache_entry:
  assumes "unat v < length (verticesCoords S)"
  shows "neighboringCellsPerVertex (updateVertexToCellsCache S) ! unat v =
         lookup (neighboringCellsPerVertexTmp (tetrahedralization S) (length (verticesCoords S))) v"
proof -
  let ?n = "length (verticesCoords S)"
  let ?tmp = "neighboringCellsPerVertexTmp (tetrahedralization S) ?n"
  have d: "distinct (map fst ?tmp)"
    using tmp_properties(1) by (rule strict_sorted_distinct)
  have nb: "neighboringCellsPerVertex (updateVertexToCellsCache S) = assign_all (replicate ?n []) ?tmp"
    by (simp add: updateVertexToCellsCache_def Let_def)
  show ?thesis
  proof (cases "map_of ?tmp v")
    case None
    then have "\<forall>(v', s) \<in> set ?tmp. unat v' \<noteq> unat v"
      by (auto simp: map_of_eq_None_iff word_unat_eq_iff [symmetric] image_iff)
    then have "assign_all (replicate ?n []) ?tmp ! unat v = replicate ?n [] ! unat v"
      by (rule assign_all_other)
    then show ?thesis using None assms by (simp add: nb lookup_def)
  next
    case (Some s)
    then have "(v, s) \<in> set ?tmp" by (rule map_of_SomeD)
    then have "assign_all (replicate ?n []) ?tmp ! unat v = s"
      using assign_all_key [OF d, of v s "replicate ?n []"] assms by simp
    then show ?thesis using Some by (simp add: nb lookup_def)
  qed
qed

lemma example_tmp:
  "neighboringCellsPerVertexTmp two_tets 5 = [(0, [0]), (1, [0, 1]), (2, [0, 1]), (3, [0, 1]), (4, [1])]"
  by (simp add: neighboringCellsPerVertexTmp_def two_tets_cells slots_def cache_step_def
      two_tets_vertex NO_VERTEX_def set_insert_def)

lemma example_cache:
  "neighboringCellsPerVertex (updateVertexToCellsCache example_state) =
     [[0], [0, 1], [0, 1], [0, 1], [1]]"
proof -
  have r: "replicate 5 ([] :: index_t list) = [[], [], [], [], []]"
    by (simp add: numeral_eq_Suc)
  show ?thesis
    by (simp add: updateVertexToCellsCache_def example_state_def example_tmp assign_all_def r)
qed

subsection \<open>The rebuilt cache\<close>

text \<open>
  C2. After \<^verbatim>\<open>updateVertexToCellsCache\<close>, for every vertex index \<open>vi\<close> valid in
  \<^verbatim>\<open>_verticesCoords\<close> (below its size, and not the reserved \<^verbatim>\<open>NO_VERTEX\<close>), the list cached
  for \<open>vi\<close> has no duplicates and its elements are exactly the cells of the backend that
  hold \<open>vi\<close> in one of their four slots.
\<close>

theorem updateVertexToCellsCache_exact:
  assumes "vi \<noteq> NO_VERTEX" and "unat vi < length (verticesCoords S)"
  shows "distinct (neighboringCellsPerVertex (updateVertexToCellsCache S) ! unat vi) \<and>
         set (neighboringCellsPerVertex (updateVertexToCellsCache S) ! unat vi) =
           {ci. ci < nb_cells (tetrahedralization S) \<and>
                (\<exists>k \<in> {0, 1, 2, 3}. cell_vertex (tetrahedralization S) ci k = vi)}"
proof -
  let ?n = "length (verticesCoords S)"
  let ?T = "tetrahedralization S"
  let ?tmp = "neighboringCellsPerVertexTmp ?T ?n"
  have s: "set slots = {0, 1, 2, 3}" by (auto simp: slots_def)
  have e: "neighboringCellsPerVertex (updateVertexToCellsCache S) ! unat vi = lookup ?tmp vi"
    using assms(2) by (rule cache_entry)
  have "distinct (lookup ?tmp vi)"
    using tmp_properties(2) [of ?n ?T]
    by (auto simp: entries_ok_def lookup_def split: option.splits dest!: map_of_SomeD)
  moreover have "set (lookup ?tmp vi) =
      {ci. ci < nb_cells ?T \<and> (\<exists>k \<in> {0, 1, 2, 3}. cell_vertex ?T ci k = vi)}"
    using assms by (auto simp: tmp_properties(3) recorded_def cells_iff s)
  ultimately show ?thesis by (simp only: e)
qed



theorem updateVertexToCellsCache_exact_witness:
  "(1 :: index_t) \<noteq> NO_VERTEX \<and> unat (1 :: index_t) < length (verticesCoords example_state) \<and>
   neighboringCellsPerVertex (updateVertexToCellsCache example_state) ! unat (1 :: index_t) = [0, 1] \<and>
   distinct [0, 1 :: index_t] \<and>
   set [0, 1 :: index_t] =
     {ci. ci < nb_cells two_tets \<and> (\<exists>k \<in> {0, 1, 2, 3}. cell_vertex two_tets ci k = 1)}"
proof -
  have h1: "(1 :: index_t) \<noteq> NO_VERTEX" by (simp add: NO_VERTEX_def)
  have h2: "unat (1 :: index_t) < length (verticesCoords example_state)"
    by (simp add: example_state_def)
  have T: "tetrahedralization example_state = two_tets" by (simp add: example_state_def)
  have v: "neighboringCellsPerVertex (updateVertexToCellsCache example_state) ! unat (1 :: index_t) = [0, 1]"
    by (simp add: example_cache)
  from updateVertexToCellsCache_exact [OF h1 h2] h1 h2 v show ?thesis
    by (simp only: v T) simp
qed

subsection \<open>Queries on the cache\<close>

text \<open>
  C4. \<^verbatim>\<open>getNeighboringCellsByVertexIndex\<close> throws \<^verbatim>\<open>std::out_of_range\<close>, and returns no list,
  when the cache has never been built or when \<open>vi\<close> is not below the size of the cache.
\<close>

theorem getNeighboringCells_throws:
  assumes "never_built S \<or> length (neighboringCellsPerVertex S) \<le> unat vi"
  shows "getNeighboringCellsByVertexIndex S vi = Inl out_of_range"
  using assms
  by (auto simp: getNeighboringCellsByVertexIndex_def vector_at_def never_built_def)

theorem getNeighboringCells_throws_witness:
  "never_built example_state \<and>
   getNeighboringCellsByVertexIndex example_state 0 = Inl out_of_range \<and>
   length (neighboringCellsPerVertex (updateVertexToCellsCache example_state)) \<le> unat (5 :: index_t) \<and>
   getNeighboringCellsByVertexIndex (updateVertexToCellsCache example_state) 5 = Inl out_of_range"
proof -
  have a: "never_built example_state" by (simp add: never_built_def example_state_def)
  have b: "length (neighboringCellsPerVertex (updateVertexToCellsCache example_state))
             \<le> unat (5 :: index_t)"
    by (simp add: example_cache)
  from getNeighboringCells_throws [of example_state 0]
    getNeighboringCells_throws [of "updateVertexToCellsCache example_state" 5] a b
  show ?thesis by blast
qed

lemma built_length:
  "length (neighboringCellsPerVertex (updateVertexToCellsCache S)) = length (verticesCoords S)"
  by (simp add: updateVertexToCellsCache_def Let_def length_assign_all)

lemma built_entry_distinct:
  assumes "i < length (verticesCoords S)"
  shows "distinct (neighboringCellsPerVertex (updateVertexToCellsCache S) ! i)"
proof -
  let ?n = "length (verticesCoords S)"
  let ?tmp = "neighboringCellsPerVertexTmp (tetrahedralization S) ?n"
  have nb: "neighboringCellsPerVertex (updateVertexToCellsCache S) = assign_all (replicate ?n []) ?tmp"
    by (simp add: updateVertexToCellsCache_def Let_def)
  from assign_all_cases [of i "replicate ?n []" ?tmp] assms
  consider "assign_all (replicate ?n []) ?tmp ! i = []"
    | v s where "(v, s) \<in> set ?tmp" "assign_all (replicate ?n []) ?tmp ! i = s"
    by auto
  then show ?thesis
  proof cases
    case 1
    then show ?thesis by (simp add: nb)
  next
    case 2
    then show ?thesis using tmp_properties(2) [of ?n "tetrahedralization S"]
      by (auto simp: nb entries_ok_def)
  qed
qed

lemma length_distinct_index: "distinct (xs :: index_t list) \<Longrightarrow> length xs \<le> 2 ^ 32"
proof -
  assume "distinct xs"
  then have "length xs = card (set xs)" by (simp add: distinct_card)
  also have "\<dots> \<le> card (UNIV :: index_t set)" by (rule card_mono) simp_all
  also have "\<dots> = 2 ^ 32" by (simp add: card_word)
  finally show ?thesis .
qed

lemma size_t_of_int_nonneg: "0 \<le> sint i \<Longrightarrow> size_t_of_int i = nat (sint i)"
proof -
  assume "0 \<le> sint i"
  moreover have "sint i < 2 ^ 64" using sint_lt [of i] by simp
  ultimately show ?thesis by (simp add: size_t_of_int_def)
qed

lemma size_t_of_int_neg: "sint i < 0 \<Longrightarrow> 2 ^ 32 < size_t_of_int (i :: c_int)"
proof -
  assume neg: "sint i < 0"
  have ge: "- (2 ^ 31) \<le> sint i" using sint_ge [of i] by simp
  have "sint i mod 2 ^ 64 = (sint i + 2 ^ 64) mod 2 ^ 64" by simp
  also have "\<dots> = sint i + 2 ^ 64" using neg ge by (intro mod_pos_pos_trivial) simp_all
  finally have "sint i mod 2 ^ 64 = sint i + 2 ^ 64" .
  then show ?thesis using ge by (simp add: size_t_of_int_def)
qed

text \<open>
  C10. For a vertex index \<open>vi\<close> present in the built cache, \<^verbatim>\<open>vertexToCells(vi, lvi)\<close>
  returns \<^verbatim>\<open>NO_CELL\<close> when \<open>lvi\<close> is negative or not below the size of the list cached for
  \<open>vi\<close>, and the \<open>lvi\<close>-th element of that list otherwise; it does not throw.
\<close>

theorem vertexToCells_bounds:
  assumes "unat vi < length (neighboringCellsPerVertex (updateVertexToCellsCache S))"
  shows "(sint lvi < 0 \<or>
          int (length (neighboringCellsPerVertex (updateVertexToCellsCache S) ! unat vi)) \<le> sint lvi
          \<longrightarrow> vertexToCells (updateVertexToCellsCache S) vi lvi = Inr NO_CELL) \<and>
         (0 \<le> sint lvi \<and>
          sint lvi < int (length (neighboringCellsPerVertex (updateVertexToCellsCache S) ! unat vi))
          \<longrightarrow> vertexToCells (updateVertexToCellsCache S) vi lvi =
                Inr (neighboringCellsPerVertex (updateVertexToCellsCache S) ! unat vi ! nat (sint lvi)))"
proof -
  let ?S = "updateVertexToCellsCache S"
  let ?cs = "neighboringCellsPerVertex ?S ! unat vi"
  have at: "vector_at (neighboringCellsPerVertex ?S) vi = Inr ?cs"
    using assms by (simp add: vector_at_def)
  have "distinct ?cs" using assms built_entry_distinct [of "unat vi" S] by (simp add: built_length)
  then have len: "length ?cs \<le> 2 ^ 32" by (rule length_distinct_index)
  have neg: "vertexToCells ?S vi lvi = Inr NO_CELL" if "sint lvi < 0"
    using size_t_of_int_neg [OF that] len by (simp add: vertexToCells_def at)
  have big: "vertexToCells ?S vi lvi = Inr NO_CELL" if "int (length ?cs) \<le> sint lvi"
  proof -
    have "0 \<le> sint lvi" using that by linarith
    then have "size_t_of_int lvi = nat (sint lvi)" by (rule size_t_of_int_nonneg)
    moreover have "length ?cs \<le> nat (sint lvi)" using that by linarith
    ultimately show ?thesis by (simp add: vertexToCells_def at)
  qed
  have ok: "vertexToCells ?S vi lvi = Inr (?cs ! nat (sint lvi))"
    if "0 \<le> sint lvi" "sint lvi < int (length ?cs)"
  proof -
    have "size_t_of_int lvi = nat (sint lvi)" using that(1) by (rule size_t_of_int_nonneg)
    moreover have "\<not> length ?cs \<le> nat (sint lvi)" using that by linarith
    ultimately show ?thesis by (simp add: vertexToCells_def at)
  qed
  from neg big ok show ?thesis by blast
qed

theorem vertexToCells_bounds_witness:
  "unat (1 :: index_t) < length (neighboringCellsPerVertex (updateVertexToCellsCache example_state)) \<and>
   vertexToCells (updateVertexToCellsCache example_state) 1 (- 1) = Inr NO_CELL \<and>
   vertexToCells (updateVertexToCellsCache example_state) 1 2 = Inr NO_CELL \<and>
   vertexToCells (updateVertexToCellsCache example_state) 1 1 = Inr 1"
proof -
  have h: "unat (1 :: index_t) < length (neighboringCellsPerVertex (updateVertexToCellsCache example_state))"
    by (simp add: example_cache)
  have v: "neighboringCellsPerVertex (updateVertexToCellsCache example_state) ! unat (1 :: index_t) = [0, 1]"
    by (simp add: example_cache)
  have v': "neighboringCellsPerVertex (updateVertexToCellsCache example_state) ! Suc 0 = [0, 1]"
    using v by simp
  from vertexToCells_bounds [OF h, of "- 1"] vertexToCells_bounds [OF h, of 2]
    vertexToCells_bounds [OF h, of 1] h
  show ?thesis by (simp add: v')
qed

section \<open>Properties of the operations modelled from the specification\<close>

subsection \<open>Dust removal\<close>

lemma crossing_iff:
  "(c, d) \<in> set (same_label_crossings S full) \<longleftrightarrow>
     c \<in> set (cells (tetrahedralization S)) \<and>
     (\<exists>k \<in> set slots. d = cell_adjacent (tetrahedralization S) c k) \<and>
     d \<noteq> NO_CELL \<and> label S c = full \<and> label S d = full"
  by (auto simp: same_label_crossings_def Let_def mirrorFacet_cellIndex)

lemma sym_crossings:
  assumes "cell_adjacency_symmetric (tetrahedralization S)"
  shows "sym (set (same_label_crossings S full))"
proof (rule symI)
  fix c d
  let ?T = "tetrahedralization S"
  assume cd: "(c, d) \<in> set (same_label_crossings S full)"
  then obtain k where k: "c \<in> set (cells ?T)" "k \<in> set slots" "d = cell_adjacent ?T c k"
    "d \<noteq> NO_CELL" "label S c = full" "label S d = full"
    by (auto simp: crossing_iff)
  from assms k(1-4) have "d < nb_cells ?T" and "\<exists>k' \<in> set slots. cell_adjacent ?T d k' = c"
    unfolding cell_adjacency_symmetric_def list_all_iff list_ex_iff by blast+
  moreover have "c \<noteq> NO_CELL" using k(1) by (simp add: cells_iff cell_not_NO_CELL)
  ultimately show "(d, c) \<in> set (same_label_crossings S full)"
    using k(5,6) by (auto simp: crossing_iff cells_iff)
qed

lemma unat_word_of_nat_cell:
  "n < unat (nb_cells T) \<Longrightarrow> unat (word_of_nat n :: index_t) = n"
  by (rule le_unat_uoi [of n "nb_cells T"]) simp

lemma distinct_cells: "distinct (cells T)"
proof -
  have "inj_on (word_of_nat :: nat \<Rightarrow> index_t) (set [0 ..< unat (nb_cells T)])"
  proof (rule inj_onI)
    fix x y assume x: "x \<in> set [0 ..< unat (nb_cells T)]" and y: "y \<in> set [0 ..< unat (nb_cells T)]"
      and eq: "(word_of_nat x :: index_t) = word_of_nat y"
    have "unat (word_of_nat x :: index_t) = x" using x by (intro unat_word_of_nat_cell) simp
    moreover have "unat (word_of_nat y :: index_t) = y" using y by (intro unat_word_of_nat_cell) simp
    ultimately show "x = y" using eq by metis
  qed
  then show ?thesis unfolding cells_def by (subst distinct_map) simp
qed

lemma cells_nth:
  assumes "c < nb_cells T"
  shows "unat c < length (cells T)" and "cells T ! unat c = c"
proof -
  have l: "unat c < unat (nb_cells T)" using assms by (simp add: word_less_nat_alt)
  then show "unat c < length (cells T)" by (simp add: cells_def)
  have "cells T ! unat c = word_of_nat ([0 ..< unat (nb_cells T)] ! unat c)"
    unfolding cells_def using l by (intro nth_map) simp
  also have "\<dots> = word_of_nat (unat c)" using l by simp
  finally show "cells T ! unat c = c" by simp
qed

lemma set_component:
  "set (component S full c) =
     {d \<in> set (cells (tetrahedralization S)). (c, d) \<in> (set (same_label_crossings S full))\<^sup>*}"
  by (auto simp: component_def rtrancl_eq_or_trancl)

lemma length_component:
  "length (component S full c) =
     card {d \<in> set (cells (tetrahedralization S)). (c, d) \<in> (set (same_label_crossings S full))\<^sup>*}"
proof -
  have "distinct (component S full c)" by (simp add: component_def distinct_cells)
  then have "length (component S full c) = card (set (component S full c))"
    by (simp add: distinct_card)
  then show ?thesis by (simp only: set_component)
qed

lemma tetrahedralization_removeDust [simp]:
  "tetrahedralization (removeDust S k) = tetrahedralization S"
  by (simp add: removeDust_def)

lemma cellIsFull_removeDust:
  "cellIsFull (removeDust S k) =
     map (\<lambda>c. label S c \<and> \<not> int (length (component S True c)) < sint k)
       (cells (tetrahedralization S))"
  by (simp add: removeDust_def)

lemma removeDust_update: "removeDust S k = S\<lparr>cellIsFull := cellIsFull (removeDust S k)\<rparr>"
  by (simp add: removeDust_def)

lemma label_removeDust:
  assumes "c \<in> set (cells (tetrahedralization S))"
  shows "label (removeDust S k) c \<longleftrightarrow>
         label S c \<and> \<not> int (length (component S True c)) < sint k"
  using assms cells_nth [of c "tetrahedralization S"]
  by (simp add: label_def cellIsFull_removeDust cells_iff)

lemma same_component:
  assumes "sym E" and "(c, d) \<in> E\<^sup>*"
  shows "{x \<in> A. (c, x) \<in> E\<^sup>*} = {x \<in> A. (d, x) \<in> E\<^sup>*}"
proof -
  have "(d, c) \<in> E\<^sup>*" using assms by (meson sym_rtrancl symD)
  then show ?thesis using assms(2) by (auto intro: rtrancl_trans)
qed

lemma chain_symmetric: "cell_adjacency_symmetric chain"
  by code_simp

lemma chain_state_dust: "cellIsFull (removeDust chain_state 2) = [False, False, True, True]"
  by code_simp

text \<open>
  C9. \<^verbatim>\<open>removeDust\<close> is idempotent: on a labelled cell complex (every cell has a label, and
  adjacency is symmetric between cells), for every threshold \<open>k\<close>, applying
  \<^verbatim>\<open>removeDust(k)\<close> twice gives the state that applying it once gives.
\<close>

theorem removeDust_idempotent:
  assumes lab: "labelled S"
    and sym: "cell_adjacency_symmetric (tetrahedralization S)"
  shows "removeDust (removeDust S k) k = removeDust S k"
proof -
  let ?T = "tetrahedralization S"
  let ?S' = "removeDust S k"
  let ?E = "set (same_label_crossings S True)"
  let ?E' = "set (same_label_crossings ?S' True)"
  let ?keep = "\<lambda>S c. \<not> int (length (component S True c)) < sint k"
  have symE: "sym ?E" using sym by (rule sym_crossings)
  have E_cells: "\<And>c d. (c, d) \<in> ?E \<Longrightarrow> c \<in> set (cells ?T) \<and> d \<in> set (cells ?T)"
  proof -
    fix c d assume cd: "(c, d) \<in> ?E"
    then have "(d, c) \<in> ?E" using symE by (meson symD)
    with cd show "c \<in> set (cells ?T) \<and> d \<in> set (cells ?T)" by (simp add: crossing_iff)
  qed
  have keep_edge: "?keep S c = ?keep S d" if "(c, d) \<in> ?E" for c d
  proof -
    have "(c, d) \<in> ?E\<^sup>*" using that by blast
    from same_component [OF symE this, of "set (cells ?T)"]
    show ?thesis by (simp add: length_component)
  qed
  have E'_iff: "(c, d) \<in> ?E' \<longleftrightarrow> (c, d) \<in> ?E \<and> ?keep S c" for c d
  proof
    assume a: "(c, d) \<in> ?E'"
    then have c: "c \<in> set (cells ?T)" and lc: "label ?S' c" and ld: "label ?S' d"
      and adj: "\<exists>k \<in> set slots. d = cell_adjacent ?T c k" and d: "d \<noteq> NO_CELL"
      by (simp_all add: crossing_iff)
    from sym c adj d have "d < nb_cells ?T"
      unfolding cell_adjacency_symmetric_def list_all_iff by blast
    then have "d \<in> set (cells ?T)" by (simp add: cells_iff)
    then show "(c, d) \<in> ?E \<and> ?keep S c"
      using c lc ld adj d by (simp add: crossing_iff label_removeDust)
  next
    assume a: "(c, d) \<in> ?E \<and> ?keep S c"
    then have "?keep S d" using keep_edge [of c d] by simp
    moreover from a have "c \<in> set (cells ?T)" "d \<in> set (cells ?T)" using E_cells by blast+
    ultimately show "(c, d) \<in> ?E'"
      using a by (simp add: crossing_iff label_removeDust)
  qed
  have reach: "(c, x) \<in> ?E'\<^sup>* \<longleftrightarrow> (c, x) \<in> ?E\<^sup>*" if kc: "?keep S c" for c x
  proof
    assume "(c, x) \<in> ?E'\<^sup>*"
    moreover have "?E' \<subseteq> ?E" using E'_iff by auto
    ultimately show "(c, x) \<in> ?E\<^sup>*" by (meson rtrancl_mono subsetD)
  next
    assume "(c, x) \<in> ?E\<^sup>*"
    then have "(c, x) \<in> ?E'\<^sup>* \<and> ?keep S x"
    proof (induction rule: rtrancl_induct)
      case base
      then show ?case using kc by simp
    next
      case (step y z)
      then have "(y, z) \<in> ?E'" using E'_iff by simp
      moreover have "?keep S z" using keep_edge [OF step(2)] step(3) by simp
      ultimately show ?case using step(3) by (meson rtrancl.rtrancl_into_rtrancl)
    qed
    then show "(c, x) \<in> ?E'\<^sup>*" ..
  qed
  have keep': "?keep ?S' c" if "?keep S c" for c
  proof -
    have "length (component ?S' True c) = length (component S True c)"
      using reach [OF that] by (simp add: length_component)
    then show ?thesis using that by simp
  qed
  have "map (\<lambda>c. label ?S' c \<and> ?keep ?S' c) (cells ?T) =
        map (\<lambda>c. label S c \<and> ?keep S c) (cells ?T)"
  proof (rule map_cong [OF refl])
    fix c assume c: "c \<in> set (cells ?T)"
    show "(label ?S' c \<and> ?keep ?S' c) = (label S c \<and> ?keep S c)"
      using keep' [of c] by (auto simp: label_removeDust [OF c])
  qed
  then have "cellIsFull (removeDust ?S' k) = cellIsFull ?S'"
    by (simp only: cellIsFull_removeDust tetrahedralization_removeDust)
  then have "?S'\<lparr>cellIsFull := cellIsFull (removeDust ?S' k)\<rparr> = ?S'" by simp
  then show ?thesis by (simp only: removeDust_update [of ?S' k, symmetric])
qed


theorem removeDust_idempotent_witness:
  "labelled chain_state \<and> cell_adjacency_symmetric (tetrahedralization chain_state) \<and>
   cellIsFull (removeDust chain_state 2) = [False, False, True, True] \<and>
   removeDust (removeDust chain_state 2) 2 = removeDust chain_state 2"
proof -
  have l: "labelled chain_state"
    by (simp add: labelled_def chain_state_def chain_def delaunay_of_arrays_def)
  have s: "cell_adjacency_symmetric (tetrahedralization chain_state)"
    by (simp add: chain_state_def chain_symmetric)
  from removeDust_idempotent [OF l s, of 2] l s chain_state_dust show ?thesis by blast
qed

subsection \<open>Surface extraction\<close>

lemma all_facets_iff:
  "f \<in> set (all_facets T) \<longleftrightarrow> cellIndex f < nb_cells T \<and> localVertexIndex f < 4"
proof -
  have "f \<in> set (all_facets T) \<longleftrightarrow>
        (\<exists>ci \<in> set (cells T). \<exists>k \<in> set slots. f = \<lparr>cellIndex = ci, localVertexIndex = k\<rparr>)"
    by (auto simp: all_facets_def)
  also have "\<dots> \<longleftrightarrow> cellIndex f \<in> set (cells T) \<and> localVertexIndex f \<in> set slots"
    by (cases f) auto
  finally show ?thesis by (simp add: cells_iff slots_iff)
qed

lemma helper_state_fields:
  "tetrahedralization helper_state = two_tets"
  "label helper_state 0 = True" "label helper_state 1 = False"
  "isHelper (verticesAttr helper_state ! Suc 0) = True"
  by (simp_all add: helper_state_def label_def)

lemma two_tets_finite: "\<not> isInfiniteCell two_tets 0" "\<not> isInfiniteCell two_tets 1"
  by (simp_all add: isInfiniteCell_def two_tets_def delaunay_of_arrays_def upt_rec)

lemma set_facet_triangle:
  "set (tri_v (facet_triangle S outward f)) = set (facetVertices (tetrahedralization S) f)"
  by (auto simp: facet_triangle_def Let_def triangle_of_def facetVertices_def)

lemma tris_createMesh:
  "tris (createMesh S outward flt) =
     map (facet_triangle S outward) (filter (emits S flt) (all_facets (tetrahedralization S)))"
  by (simp add: createMesh_def)

lemma touches_helper_cong:
  "set (facetVertices (tetrahedralization S) f) = set (facetVertices (tetrahedralization S) g) \<Longrightarrow>
   touches_helper S f = touches_helper S g"
  by (simp add: touches_helper_def list_ex_iff)

lemma opposite_not_on_facet:
  assumes "distinct (map (cell_vertex T c) slots)" and "l < 4"
  shows "cell_vertex T c l \<notin> set (facetVertices T \<lparr>cellIndex = c, localVertexIndex = l\<rparr>)"
proof -
  have inj: "inj_on (cell_vertex T c) (set slots)" using assms(1) by (simp add: distinct_map)
  have "set (facetVertices T \<lparr>cellIndex = c, localVertexIndex = l\<rparr>) =
        cell_vertex T c ` (set slots - {l})"
    using set_facetVertices [of "\<lparr>cellIndex = c, localVertexIndex = l\<rparr>" T] assms(2) by simp
  moreover have "l \<in> set slots" using assms(2) by (simp add: slots_iff)
  ultimately show ?thesis using inj by (auto dest: inj_onD)
qed

lemma mirror_of_neighbour:
  assumes sym: "adjacent_symmetric T"
    and c: "c < nb_cells T" and l: "l < 4"
    and adj: "cell_adjacent T c l \<noteq> NO_CELL"
    and dist: "distinct (map (cell_vertex T (cell_adjacent T c l)) slots)"
  shows "\<exists>k. k < 4 \<and>
           mirrorFacet T \<lparr>cellIndex = c, localVertexIndex = l\<rparr> =
             \<lparr>cellIndex = cell_adjacent T c l, localVertexIndex = k\<rparr> \<and>
           cell_adjacent T (cell_adjacent T c l) k = c \<and>
           set (facetVertices T \<lparr>cellIndex = cell_adjacent T c l, localVertexIndex = k\<rparr>) =
             set (facetVertices T \<lparr>cellIndex = c, localVertexIndex = l\<rparr>)"
proof -
  let ?c' = "cell_adjacent T c l"
  let ?F = "set (facetVertices T \<lparr>cellIndex = c, localVertexIndex = l\<rparr>)"
  have c_in: "c \<in> set (cells T)" and l_in: "l \<in> set slots"
    using c l by (simp_all add: cells_iff slots_iff)
  from sym c_in l_in adj obtain k where k: "k \<in> set slots" "cell_adjacent T ?c' k = c"
    "set (facetVertices T \<lparr>cellIndex = ?c', localVertexIndex = k\<rparr>) = ?F"
    unfolding adjacent_symmetric_def list_all_iff list_ex_iff by blast
  have k4: "k < 4" using k(1) by (simp add: slots_iff)
  have absent: "cell_vertex T ?c' k \<notin> ?F"
    using opposite_not_on_facet [OF dist k4] k(3) by simp
  have "cell_vertex T ?c' ` (set slots - {k}) = ?F"
    using set_facetVertices [of "\<lparr>cellIndex = ?c', localVertexIndex = k\<rparr>" T] k4 k(3) by simp
  then have others: "\<And>j. j \<in> set slots \<Longrightarrow> j \<noteq> k \<Longrightarrow> \<not> cell_vertex T ?c' j \<notin> ?F"
    by blast
  have "find (\<lambda>j. cell_vertex T ?c' j \<notin> ?F) slots = Some k"
    by (rule find_only [where P = "\<lambda>j. cell_vertex T ?c' j \<notin> ?F", OF k(1) absent others])
  then have "mirrorFacet T \<lparr>cellIndex = c, localVertexIndex = l\<rparr> =
             \<lparr>cellIndex = ?c', localVertexIndex = k\<rparr>"
    using mirrorFacet_found [of T "\<lparr>cellIndex = c, localVertexIndex = l\<rparr>" k] adj by simp
  then show ?thesis using k4 k(2,3) by blast
qed

lemma concat_map_product:
  "concat (map (\<lambda>x. map (h x) ys) xs) = map (\<lambda>(x, y). h x y) (List.product xs ys)"
  by (induction xs) (simp_all add: comp_def)

lemma distinct_all_facets: "distinct (all_facets T)"
proof -
  have "all_facets T =
        map (\<lambda>(ci, k). \<lparr>cellIndex = ci, localVertexIndex = k\<rparr>) (List.product (cells T) slots)"
    unfolding all_facets_def by (rule concat_map_product)
  moreover have "distinct (List.product (cells T) slots)"
    by (simp add: distinct_product distinct_cells slots_def)
  moreover have "inj_on (\<lambda>(ci, k). \<lparr>cellIndex = ci, localVertexIndex = k :: index_t\<rparr>) A" for A
    by (auto simp: inj_on_def)
  ultimately show ?thesis by (simp add: distinct_map)
qed

lemma length_filter_le_one:
  "distinct xs \<Longrightarrow> (\<And>x y. x \<in> set xs \<Longrightarrow> y \<in> set xs \<Longrightarrow> P x \<Longrightarrow> P y \<Longrightarrow> x = y) \<Longrightarrow>
   length (filter P xs) \<le> 1"
proof (induction xs)
  case Nil
  then show ?case by simp
next
  case (Cons a xs)
  have IH: "length (filter P xs) \<le> 1" using Cons by simp
  show ?case
  proof (cases "P a")
    case True
    have "filter P xs = []"
    proof (rule ccontr)
      assume "filter P xs \<noteq> []"
      then obtain y where y: "y \<in> set xs" "P y"
        by (metis filter_False)
      then have "a = y" using Cons.prems(2) [of a y] True by simp
      then show False using y(1) Cons.prems(1) by simp
    qed
    then show ?thesis using True by simp
  next
    case False
    then show ?thesis using IH by simp
  qed
qed

lemma emits_facts:
  assumes "emits S flt g"
  shows "label S (cellIndex g)"
    and "\<not> isInfiniteCell (tetrahedralization S) (cellIndex g)"
    and "cell_adjacent (tetrahedralization S) (cellIndex g) (localVertexIndex g) \<noteq> NO_CELL"
    and "\<not> isInfiniteCell (tetrahedralization S)
            (cell_adjacent (tetrahedralization S) (cellIndex g) (localVertexIndex g))"
    and "\<not> label S (cell_adjacent (tetrahedralization S) (cellIndex g) (localVertexIndex g))"
    and "flt \<Longrightarrow> \<not> touches_helper S g"
  using assms
  by (auto simp: emits_def Let_def isInvalidOrInfiniteCell_def mirrorFacet_cellIndex)

lemma emitsI:
  assumes "label S (cellIndex g)" and "cellIndex g \<noteq> NO_CELL"
    and "\<not> isInfiniteCell (tetrahedralization S) (cellIndex g)"
    and "cell_adjacent (tetrahedralization S) (cellIndex g) (localVertexIndex g) \<noteq> NO_CELL"
    and "\<not> isInfiniteCell (tetrahedralization S)
            (cell_adjacent (tetrahedralization S) (cellIndex g) (localVertexIndex g))"
    and "\<not> label S (cell_adjacent (tetrahedralization S) (cellIndex g) (localVertexIndex g))"
    and "flt \<Longrightarrow> \<not> touches_helper S g"
  shows "emits S flt g"
  using assms
  by (auto simp: emits_def Let_def isInvalidOrInfiniteCell_def mirrorFacet_cellIndex)

lemma faces_sharedD:
  assumes "faces_shared_by_neighbours T" and "f \<in> set (all_facets T)" and "g \<in> set (all_facets T)"
    and "set (facetVertices T f) = set (facetVertices T g)"
  shows "f = g \<or>
         (cell_adjacent T (cellIndex f) (localVertexIndex f) = cellIndex g \<and>
          cell_adjacent T (cellIndex g) (localVertexIndex g) = cellIndex f)"
  using assms unfolding faces_shared_by_neighbours_def list_all_iff by blast

lemma length_triangles_on:
  "length (triangles_on S outward flt f) =
   length (filter (\<lambda>g. emits S flt g \<and>
                        set (facetVertices (tetrahedralization S) g) =
                        set (facetVertices (tetrahedralization S) f))
             (all_facets (tetrahedralization S)))"
proof -
  have "triangles_on S outward flt f =
        map (facet_triangle S outward)
          (filter (\<lambda>g. set (facetVertices (tetrahedralization S) g) =
                        set (facetVertices (tetrahedralization S) f))
             (filter (emits S flt) (all_facets (tetrahedralization S))))"
    by (simp add: triangles_on_def tris_createMesh filter_map comp_def set_facet_triangle)
  then show ?thesis by (simp add: conj_commute)
qed

lemma two_tets_cell_symmetric: "cell_adjacency_symmetric two_tets"
  by (simp add: cell_adjacency_symmetric_def two_tets_cells slots_def two_tets_adjacent
      two_tets_nb_cells NO_CELL_def)

lemma two_tets_faces: "faces_shared_by_neighbours two_tets"
  by code_simp

lemma two_tets_triangulation: "triangulation two_tets"
  by (simp add: triangulation_def two_tets_symmetric two_tets_cell_symmetric two_tets_distinct
      two_tets_faces)

lemma helper_state_mesh:
  "tris (createMesh helper_state always False) = [\<lparr>tri_v = [1, 2, 3], alive = True\<rparr>]"
  "tris (createMesh helper_state always True) = []"
  by code_simp+

text \<open>
  C8 as stated fails when the filter is set: \<open>two_tets\<close> is a triangulation, its facet 0
  of cell 0 lies between the full cell 0 and the empty cell 1, neither of them infinite,
  and \<^verbatim>\<open>createMesh(true)\<close> emits no triangle, since vertex 1 of that facet is a helper
  point.
\<close>

theorem createMesh_filter_counterexample:
  "triangulation (tetrahedralization helper_state) \<and>
   cellIndex (mirrorFacet (tetrahedralization helper_state)
                \<lparr>cellIndex = 0, localVertexIndex = 0\<rparr>) = 1 \<and>
   label helper_state 0 \<noteq> label helper_state 1 \<and>
   \<not> isInfiniteCell (tetrahedralization helper_state) 0 \<and>
   \<not> isInfiniteCell (tetrahedralization helper_state) 1 \<and>
   tris (createMesh helper_state always True) = []"
  by (simp add: helper_state_fields two_tets_triangulation two_tets_mirror two_tets_finite
      helper_state_mesh)

text \<open>
  C8, amended. On a triangulation whose cells all have a label, \<^verbatim>\<open>createMesh\<close> emits
  exactly one triangle on the three vertices of a facet when the facet's two incident
  cells exist, neither is infinite, their labels differ and, if
  \<^verbatim>\<open>filterHelperPointsTriangles\<close> is set, none of the three vertices is a helper point; it
  emits none otherwise. When the filter is set, no emitted triangle references a helper
  vertex.
\<close>

theorem createMesh_emits:
  assumes tri: "triangulation (tetrahedralization S)"
    and lab: "labelled S"
    and cell: "cellIndex f < nb_cells (tetrahedralization S)"
    and slot: "localVertexIndex f < 4"
  shows "length (triangles_on S outward filterHelperPointsTriangles f) =
           (if cellIndex (mirrorFacet (tetrahedralization S) f) \<noteq> NO_CELL \<and>
               \<not> isInfiniteCell (tetrahedralization S) (cellIndex f) \<and>
               \<not> isInfiniteCell (tetrahedralization S)
                   (cellIndex (mirrorFacet (tetrahedralization S) f)) \<and>
               label S (cellIndex f) \<noteq>
                 label S (cellIndex (mirrorFacet (tetrahedralization S) f)) \<and>
               (filterHelperPointsTriangles \<longrightarrow> \<not> touches_helper S f)
            then 1 else 0) \<and>
         (filterHelperPointsTriangles \<longrightarrow>
            (\<forall>t \<in> set (tris (createMesh S outward filterHelperPointsTriangles)).
               \<forall>vi \<in> set (tri_v t). \<not> isHelper (verticesAttr S ! unat vi)))"
proof -
  let ?T = "tetrahedralization S"
  let ?flt = "filterHelperPointsTriangles"
  let ?c = "cellIndex f" and ?l = "localVertexIndex f"
  let ?c' = "cell_adjacent ?T ?c ?l"
  define P where "P = (\<lambda>g. emits S ?flt g \<and> set (facetVertices ?T g) = set (facetVertices ?T f))"
  define cond where "cond \<longleftrightarrow> ?c' \<noteq> NO_CELL \<and> \<not> isInfiniteCell ?T ?c \<and> \<not> isInfiniteCell ?T ?c' \<and>
               label S ?c \<noteq> label S ?c' \<and> (?flt \<longrightarrow> \<not> touches_helper S f)"
  from tri have sym: "adjacent_symmetric ?T" and csym: "cell_adjacency_symmetric ?T"
    and dist: "distinct_cell_vertices ?T" and shared: "faces_shared_by_neighbours ?T"
    by (simp_all add: triangulation_def)
  have f_in: "f \<in> set (all_facets ?T)" using cell slot by (simp add: all_facets_iff)
  have f_eq: "f = \<lparr>cellIndex = ?c, localVertexIndex = ?l\<rparr>" by simp
  have c_ok: "?c \<noteq> NO_CELL" using cell by (rule cell_not_NO_CELL)
  have le1: "length (filter P (all_facets ?T)) \<le> 1"
  proof (rule length_filter_le_one [OF distinct_all_facets])
    fix g h assume g: "g \<in> set (all_facets ?T)" and h: "h \<in> set (all_facets ?T)"
      and Pg: "P g" and Ph: "P h"
    from Pg Ph have "set (facetVertices ?T g) = set (facetVertices ?T h)" by (simp add: P_def)
    from faces_sharedD [OF shared g h this]
    show "g = h"
    proof
      assume "g = h" then show ?thesis .
    next
      assume a: "cell_adjacent ?T (cellIndex g) (localVertexIndex g) = cellIndex h \<and>
                 cell_adjacent ?T (cellIndex h) (localVertexIndex h) = cellIndex g"
      have "\<not> label S (cellIndex h)" using emits_facts(5) [of S ?flt g] Pg a by (simp add: P_def)
      moreover have "label S (cellIndex h)" using emits_facts(1) [of S ?flt h] Ph by (simp add: P_def)
      ultimately show ?thesis by simp
    qed
  qed
  have only_if: "cond" if g: "g \<in> set (all_facets ?T)" and Pg: "P g" for g
  proof -
    from Pg have eg: "emits S ?flt g" and same: "set (facetVertices ?T f) = set (facetVertices ?T g)"
      by (simp_all add: P_def)
    have th: "touches_helper S f = touches_helper S g" using same by (rule touches_helper_cong)
    from faces_sharedD [OF shared f_in g same]
    show ?thesis
    proof
      assume "f = g"
      then show ?thesis using emits_facts [of S ?flt f] eg unfolding cond_def by auto
    next
      assume a: "?c' = cellIndex g \<and>
                 cell_adjacent ?T (cellIndex g) (localVertexIndex g) = ?c"
      have "cellIndex g \<noteq> NO_CELL"
        using g cell_not_NO_CELL [of "cellIndex g" ?T] by (simp add: all_facets_iff)
      then show ?thesis using emits_facts [of S ?flt g] eg a th unfolding cond_def by auto
    qed
  qed
  have "if": "\<exists>g \<in> set (all_facets ?T). P g" if cond: cond
  proof (cases "label S ?c")
    case True
    then have "emits S ?flt f" using cond c_ok unfolding cond_def by (intro emitsI) auto
    then show ?thesis using f_in by (auto simp: P_def)
  next
    case False
    from cond have adj: "?c' \<noteq> NO_CELL" by (simp add: cond_def)
    have "?c \<in> set (cells ?T)" and "?l \<in> set slots"
      using cell slot by (simp_all add: cells_iff slots_iff)
    with csym adj have c'_cell: "?c' < nb_cells ?T"
      unfolding cell_adjacency_symmetric_def list_all_iff by blast
    then have d': "distinct (map (cell_vertex ?T ?c') slots)"
      using dist by (simp add: distinct_cell_vertices_def list_all_iff cells_iff)
    from mirror_of_neighbour [OF sym cell slot adj d']
    obtain k where k: "k < 4" "cell_adjacent ?T ?c' k = ?c"
      "set (facetVertices ?T \<lparr>cellIndex = ?c', localVertexIndex = k\<rparr>) = set (facetVertices ?T f)"
      by (auto simp: f_eq [symmetric])
    let ?m = "\<lparr>cellIndex = ?c', localVertexIndex = k\<rparr>"
    have m_in: "?m \<in> set (all_facets ?T)" using c'_cell k(1) by (simp add: all_facets_iff)
    have th: "touches_helper S ?m = touches_helper S f" using k(3) by (rule touches_helper_cong)
    have "emits S ?flt ?m"
      using cond False c_ok k(2) th unfolding cond_def by (intro emitsI) auto
    then have "P ?m" using k(3) by (simp add: P_def)
    then show ?thesis using m_in by blast
  qed
  have len: "length (filter P (all_facets ?T)) = (if cond then 1 else 0)"
  proof (cases cond)
    case True
    then obtain g where "g \<in> set (all_facets ?T)" "P g" using "if" by blast
    then have "g \<in> set (filter P (all_facets ?T))" by simp
    then have "filter P (all_facets ?T) \<noteq> []" by (metis empty_iff list.set(1))
    then have "length (filter P (all_facets ?T)) \<noteq> 0" by simp
    then have "length (filter P (all_facets ?T)) = 1" using le1 by linarith
    then show ?thesis using True by simp
  next
    case False
    then have "\<And>g. g \<in> set (all_facets ?T) \<Longrightarrow> \<not> P g" using only_if by blast
    then have "filter P (all_facets ?T) = []" by (simp add: filter_empty_conv)
    then show ?thesis using False by simp
  qed
  have count: "length (triangles_on S outward ?flt f) =
        (if ?c' \<noteq> NO_CELL \<and> \<not> isInfiniteCell ?T ?c \<and> \<not> isInfiniteCell ?T ?c' \<and>
            label S ?c \<noteq> label S ?c' \<and> (?flt \<longrightarrow> \<not> touches_helper S f)
         then 1 else 0)"
    using len unfolding length_triangles_on P_def cond_def .
  have helper: "?flt \<longrightarrow>
            (\<forall>t \<in> set (tris (createMesh S outward ?flt)).
               \<forall>vi \<in> set (tri_v t). \<not> isHelper (verticesAttr S ! unat vi))"
  proof (intro impI ballI)
    fix t vi
    assume flt: "?flt" and t: "t \<in> set (tris (createMesh S outward ?flt))"
      and vi: "vi \<in> set (tri_v t)"
    from t obtain g where g: "emits S ?flt g" "t = facet_triangle S outward g"
      by (auto simp: tris_createMesh)
    have "\<not> touches_helper S g" using emits_facts(6) [OF g(1)] flt by simp
    moreover have "vi \<in> set (facetVertices ?T g)" using vi g(2) by (simp add: set_facet_triangle)
    ultimately show "\<not> isHelper (verticesAttr S ! unat vi)"
      by (auto simp: touches_helper_def list_ex_iff)
  qed
  show ?thesis unfolding mirrorFacet_cellIndex by (rule conjI [OF count helper])
qed


theorem createMesh_emits_witness:
  "triangulation (tetrahedralization helper_state) \<and> labelled helper_state \<and>
   cellIndex \<lparr>cellIndex = 1, localVertexIndex = 3\<rparr> < nb_cells (tetrahedralization helper_state) \<and>
   localVertexIndex \<lparr>cellIndex = 1, localVertexIndex = 3\<rparr> < 4 \<and>
   tris (createMesh helper_state always False) = [\<lparr>tri_v = [1, 2, 3], alive = True\<rparr>] \<and>
   length (triangles_on helper_state always False \<lparr>cellIndex = 1, localVertexIndex = 3\<rparr>) = 1 \<and>
   length (triangles_on helper_state always True \<lparr>cellIndex = 1, localVertexIndex = 3\<rparr>) = 0"
proof -
  let ?f = "\<lparr>cellIndex = 1, localVertexIndex = 3\<rparr>"
  have t: "triangulation (tetrahedralization helper_state)"
    by (simp add: helper_state_fields two_tets_triangulation)
  have l: "labelled helper_state"
    by (simp add: labelled_def helper_state_def two_tets_nb_cells)
  have h1: "cellIndex ?f < nb_cells (tetrahedralization helper_state)"
    by (simp add: helper_state_fields two_tets_nb_cells)
  have h2: "localVertexIndex ?f < 4" by simp
  have m: "cellIndex (mirrorFacet (tetrahedralization helper_state) ?f) = 0"
    by (simp add: helper_state_fields mirrorFacet_cellIndex two_tets_adjacent)
  have c: "cellIndex (mirrorFacet (tetrahedralization helper_state) ?f) \<noteq> NO_CELL"
    "\<not> isInfiniteCell (tetrahedralization helper_state) (cellIndex ?f)"
    "\<not> isInfiniteCell (tetrahedralization helper_state)
        (cellIndex (mirrorFacet (tetrahedralization helper_state) ?f))"
    "label helper_state (cellIndex ?f) \<noteq>
       label helper_state (cellIndex (mirrorFacet (tetrahedralization helper_state) ?f))"
    unfolding m by (simp_all add: helper_state_fields two_tets_finite NO_CELL_def)
  have th: "touches_helper helper_state ?f"
    by (simp add: touches_helper_def helper_state_fields facetVertices_def getVertexIndex_def
        facetSlot_values two_tets_vertex)
  have a: "length (triangles_on helper_state always False ?f) = 1"
    using createMesh_emits [OF t l h1 h2, of always False] c by simp
  have b: "length (triangles_on helper_state always True ?f) = 0"
    using createMesh_emits [OF t l h1 h2, of always True] th by simp
  from t l h1 h2 helper_state_mesh(1) a b show ?thesis by blast
qed

end
